theory Spec2Isabelle
  imports Complex_Main "HOL-Library.Product_Lexorder" "HOL-Library.Char_ord" "HOL-Library.List_Lexorder" "HOL-Library.Log_Nat"
begin

section \<open>Python errors and floating-point arithmetic\<close>

text \<open>
  The exceptions the modelled code can raise. \<open>ZeroStepError\<close> stands for what
  \<^verbatim>\<open>np.arange\<close> raises on a zero step (\<^verbatim>\<open>ZeroDivisionError\<close> on integers,
  \<^verbatim>\<open>ValueError\<close> on floating-point numbers and under Numba).
\<close>

datatype error = ValueError | IndexError | TypeError | ZeroStepError

subsection \<open>Double precision\<close>

text \<open>
  The arrays of the code hold IEEE 754 double-precision numbers. A finite double is
  modelled as the real number it denotes, and every arithmetic operation returns the
  exact result rounded to the nearest double, ties to the even mantissa: \<open>fl\<close> is
  that rounding, with a 53-bit mantissa and gradual underflow below \<open>2 ^ -1022\<close>.
  Results of magnitude \<open>2 ^ 1024\<close> and beyond, which the format turns into
  infinities, are outside the model.

  \<open>ilog2 a\<close> is the integer part of the binary logarithm of a positive \<open>a\<close>.
\<close>

definition pow2 :: "int \<Rightarrow> real" where
  "pow2 k = (if 0 \<le> k then 2 ^ nat k else 1 / 2 ^ nat (- k))"

definition ilog2 :: "real \<Rightarrow> int" where
  "ilog2 a = (if 1 \<le> a then bitlen \<lfloor>a\<rfloor> - 1 else - bitlen (\<lceil>1 / a\<rceil> - 1))"

definition round_half_even :: "real \<Rightarrow> int" where
  "round_half_even q =
     (let f = \<lfloor>q\<rfloor>; r = q - of_int f
      in if r < 1 / 2 then f else if 1 / 2 < r then f + 1 else if even f then f else f + 1)"

definition fl :: "real \<Rightarrow> real" where
  "fl x =
     (if x = 0 then 0
      else
        let a = \<bar>x\<bar>;
            e = max (ilog2 a) (- 1022);
            q = pow2 (e - 52)
        in sgn x * of_int (round_half_even (a / q)) * q)"

definition fadd :: "real \<Rightarrow> real \<Rightarrow> real" where
  "fadd x y = fl (x + y)"

definition fsub :: "real \<Rightarrow> real \<Rightarrow> real" where
  "fsub x y = fl (x - y)"

definition fmul :: "real \<Rightarrow> real \<Rightarrow> real" where
  "fmul x y = fl (x * y)"

definition fdiv :: "real \<Rightarrow> real \<Rightarrow> real" where
  "fdiv x y = fl (x / y)"


subsection \<open>NumPy reductions and selection\<close>

text \<open>
  The sum of an array whose entries are added to \<open>0\<close> one after the other, each
  addition rounded. Code compiled by Numba adds in this order, and so does NumPy along
  a strided axis and for fewer than eight entries; NumPy adds eight or more entries of
  a contiguous array in blocks, and the functions that may meet such arrays take the
  summation as a parameter.
\<close>

definition np_sum :: "real list \<Rightarrow> real" where
  "np_sum xs = foldl fadd 0 xs"

text \<open>
  The mean that goes with it: the sum divided by the number of entries, the quotient
  rounded. On an empty array NumPy returns not-a-number; the functions below take the
  mean of non-empty lists only.
\<close>

definition np_mean :: "real list \<Rightarrow> real" where
  "np_mean xs = fdiv (np_sum xs) (real (length xs))"

text \<open>\<^verbatim>\<open>xs[msk]\<close> with a boolean array \<open>msk\<close> of the length of \<open>xs\<close>.\<close>

definition bool_select :: "'a list \<Rightarrow> bool list \<Rightarrow> 'a list" where
  "bool_select xs msk = map fst (filter snd (zip xs msk))"

section \<open>MetricsMap (seismic\_metrics.py)\<close>

subsection \<open>NumPy helpers used by the constructor\<close>

text \<open>
  \<^verbatim>\<open>np.unique(coords, axis=0, return_index=True)\<close> returns the distinct rows of
  \<open>coords\<close> in ascending (lexicographic) order together with, for each of them, the
  index of its first occurrence in \<open>coords\<close>.
\<close>

fun first_index :: "'a \<Rightarrow> 'a list \<Rightarrow> nat" where
  "first_index c [] = 0"
| "first_index c (x # xs) = (if x = c then 0 else Suc (first_index c xs))"

definition np_unique_rows :: "('a::linorder \<times> 'a) list \<Rightarrow> ('a \<times> 'a) list \<times> nat list" where
  "np_unique_rows coords =
     (let unique_coords = sort (remdups coords)
      in (unique_coords, map (\<lambda>c. first_index c coords) unique_coords))"

text \<open>\<^verbatim>\<open>np.argsort(position)\<close>: the indices that put \<open>position\<close> in ascending order.\<close>

definition np_argsort :: "nat list \<Rightarrow> nat list" where
  "np_argsort position = map snd (sort_key fst (zip position [0..<length position]))"

subsection \<open>The class\<close>

text \<open>
  A row of \<^verbatim>\<open>_maps_list\<close> is \<^verbatim>\<open>[*coord, metric]\<close>, that is \<open>(x, y, metric)\<close>.
\<close>

record ('a, 'v) MetricsMap =
  metrics :: "'v list"
  coords :: "('a \<times> 'a) list"
  maps_list :: "('a \<times> 'a \<times> 'v) list"

text \<open>
  \<^verbatim>\<open>MetricsMap.__init__(self, metrics, coords)\<close>. Python's \<^verbatim>\<open>zip\<close> stops at the
  shorter of its two arguments, as \<^const>\<open>zip\<close> does.
\<close>

definition MetricsMap_init :: "'v list \<Rightarrow> ('a::linorder \<times> 'a) list \<Rightarrow> ('a, 'v) MetricsMap" where
  "MetricsMap_init ms cs =
     (let (unique_coords, position) = np_unique_rows cs;
          cs' = map (\<lambda>k. unique_coords ! k) (np_argsort position)
      in \<lparr> metrics = ms,
           coords = cs',
           maps_list = map (\<lambda>((x, y), m). (x, y, m)) (zip cs' ms) \<rparr>)"

text \<open>\<^verbatim>\<open>MetricsMap.append(self, metrics)\<close>: \<^verbatim>\<open>self._maps_list.extend(metrics._maps_list)\<close>.\<close>

definition MetricsMap_append :: "('a, 'v) MetricsMap \<Rightarrow> ('a, 'v) MetricsMap \<Rightarrow> ('a, 'v) MetricsMap" where
  "MetricsMap_append self other = self \<lparr> maps_list := maps_list self @ maps_list other \<rparr>"

text \<open>For the statements: the first occurrences of a list, in their order.\<close>

definition keep_first :: "'a list \<Rightarrow> 'a list" where
  "keep_first xs = rev (remdups (rev xs))"

text \<open>The number of samples of a map that sit at a given coordinate.\<close>

definition samples_at :: "('a \<times> 'a) \<Rightarrow> ('a, 'v) MetricsMap \<Rightarrow> nat" where
  "samples_at c m = length (filter (\<lambda>(x, y, v). (x, y) = c) (maps_list m))"

subsection \<open>The bin grid (construct\_metrics\_map)\<close>

text \<open>
  \<^verbatim>\<open>np.arange(start, stop, step)\<close> on floating-point arguments, as Numba compiles
  it: the number of elements is the ceiling of the rounded quotient
  \<open>(stop - start) / step\<close> (none if that is negative), and element \<open>k\<close> is
  \<open>start + k * step\<close> with the product and the sum rounded.
\<close>

definition np_arange :: "real \<Rightarrow> real \<Rightarrow> real \<Rightarrow> real list" where
  "np_arange start stop step =
     map (\<lambda>k. fadd start (fmul (real k) step)) [0..<nat \<lceil>fdiv (fsub stop start) step\<rceil>]"








section \<open>Per-gather metrics (PM.linear\_diff in seismic\_metrics.py)\<close>
















section \<open>Multi-series comparison table (std\_plot in qc/utils.py)\<close>

text \<open>
  One AVO result is a matrix with one row per gather and
  one column per offset bin. A row of the long-form DataFrame has the columns
  \<^verbatim>\<open>val\<close>, \<^verbatim>\<open>indices\<close> (the bin offset) and \<^verbatim>\<open>name\<close>. The first two
  columns pass through a string array and \<^verbatim>\<open>astype(float)\<close>, which gives back the
  same doubles.
\<close>

record avo_row =
  val :: real
  indices :: real
  name :: string

text \<open>\<^verbatim>\<open>offsets.repeat(n)\<close> repeats every element \<open>n\<close> times in place.\<close>

definition np_repeat :: "'a list \<Rightarrow> nat \<Rightarrow> 'a list" where
  "np_repeat xs n = concat (map (replicate n) xs)"

text \<open>\<^verbatim>\<open>np.nonzero(xs)[0]\<close> and \<^verbatim>\<open>np.where(xs)\<close>: the positions of the non-zero entries.\<close>

definition np_nonzero :: "real list \<Rightarrow> nat list" where
  "np_nonzero xs = filter (\<lambda>k. xs ! k \<noteq> 0) [0..<length xs]"

text \<open>
  The body of the loop \<^verbatim>\<open>for results, name in zip(avo_results, names)\<close>, up to the
  temporary DataFrame. \<open>results0\<close> is the matrix as passed (gathers by bins); the
  code transposes it first, so \<^verbatim>\<open>results.shape[1]\<close> is the number of gathers.
  \<^verbatim>\<open>nonzeros_ixs * bin_size\<close> is one rounded product per bin.

  \<^verbatim>\<open>np.sum(results, axis=1)\<close> adds the values of one bin in double precision. In
  which order it adds them depends on the memory layout of the matrix: gather after
  gather along a strided axis (the transposed view of a matrix stored row by row), in
  blocks for eight or more values along a contiguous one. The rows are therefore
  defined for any summation \<open>sumf\<close> of a list of values; \<open>np_sum\<close> is the one that
  adds the values one after the other, as every order does for fewer than eight values.
\<close>

definition series_rows :: "(real list \<Rightarrow> real) \<Rightarrow> real list list \<Rightarrow> real \<Rightarrow> string \<Rightarrow> avo_row list" where
  "series_rows sumf results0 bin_size nm =
     (let results = transpose results0;
          shape1 = length results0;
          nonzeros_ixs = np_nonzero (map sumf results);
          offsets = map (\<lambda>i. fmul (real i) bin_size) nonzeros_ixs;
          values = concat (map (\<lambda>i. results ! i) nonzeros_ixs);
          nonzeros_res = np_nonzero values;
          nonzeros_val = map (\<lambda>k. values ! k) nonzeros_res;
          nonzeros_off = map (\<lambda>k. np_repeat offsets shape1 ! k) nonzeros_res
      in map (\<lambda>(v, off). \<lparr> val = v, indices = off, name = nm \<rparr>) (zip nonzeros_val nonzeros_off))"

text \<open>The per-gather values of bin \<open>i\<close>: column \<open>i\<close> of the matrix as passed.\<close>

definition column :: "real list list \<Rightarrow> nat \<Rightarrow> real list" where
  "column results0 i = map (\<lambda>r. r ! i) results0"

text \<open>
  \<^verbatim>\<open>resulted_df.loc[resulted_df['name'] == n, 'val'] = vs\<close>, where \<open>vs\<close> carries the
  index of the selected rows: the values are written to the selected rows in order.
\<close>

fun loc_assign :: "string \<Rightarrow> real list \<Rightarrow> avo_row list \<Rightarrow> avo_row list" where
  "loc_assign n vs [] = []"
| "loc_assign n vs (r # rs) =
     (if name r = n
      then (case vs of [] \<Rightarrow> r # loc_assign n [] rs
                     | v # vs' \<Rightarrow> r \<lparr> val := v \<rparr> # loc_assign n vs' rs)
      else r # loc_assign n vs rs)"

text \<open>\<^verbatim>\<open>resulted_df.groupby('name')\<close>: the groups in ascending order of their key.\<close>

definition groupby_name :: "avo_row list \<Rightarrow> (string \<times> avo_row list) list" where
  "groupby_name df = map (\<lambda>n. (n, filter (\<lambda>r. name r = n) df)) (sort (remdups (map name df)))"

text \<open>
  \<^verbatim>\<open>np.mean\<close> of a column of the DataFrame is computed by pandas: the sum of the
  values divided by their number, both operations rounded. In which order the sum adds
  eight or more values (one after the other, or in blocks) depends on the installed
  libraries, so the alignment is defined for any mean function \<open>meanf\<close>;
  \<open>np_mean\<close> is the one that adds the values one after the other, as every variant
  does for fewer than eight values.

  The body of \<^verbatim>\<open>for name, dframe in resulted_df.groupby('name')\<close>: the difference
  and every sum \<^verbatim>\<open>dframe.val + align\<close> are rounded.
\<close>

definition align_group ::
  "(real list \<Rightarrow> real) \<Rightarrow> real \<Rightarrow> string \<times> avo_row list \<Rightarrow> avo_row list \<Rightarrow> avo_row list" where
  "align_group meanf gen_mean g resulted_df =
     (case g of (n, dframe) \<Rightarrow>
        let align = fsub gen_mean (meanf (map val dframe))
        in loc_assign n (map (\<lambda>r. fadd (val r) align) dframe) resulted_df)"

definition align_mean_table :: "(real list \<Rightarrow> real) \<Rightarrow> avo_row list \<Rightarrow> avo_row list" where
  "align_mean_table meanf resulted_df =
     (let gen_mean = meanf (map val resulted_df)
      in fold (align_group meanf gen_mean) (groupby_name resulted_df) resulted_df)"

text \<open>
  The DataFrame that \<^verbatim>\<open>std_plot\<close> hands to the line plot. \<open>series\<close> is
  \<^verbatim>\<open>zip(avo_results, names)\<close>, with the names as given or as defaulted to the decimal
  numbers of the positions.
\<close>

definition std_plot_table ::
  "(real list \<Rightarrow> real) \<Rightarrow> (real list \<Rightarrow> real) \<Rightarrow> (real list list \<times> string) list \<Rightarrow> real \<Rightarrow> bool
     \<Rightarrow> avo_row list" where
  "std_plot_table sumf meanf series bin_size align_mean =
     (let resulted_df = concat (map (\<lambda>(results, nm). series_rows sumf results bin_size nm) series)
      in if align_mean then align_mean_table meanf resulted_df else resulted_df)"

text \<open>
  For the statements: the values of one named series in a table, and a row moved by
  the rounded difference between a target mean \<open>G\<close> and the mean of the row's own
  series, the sum being rounded as well.
\<close>

definition series_of :: "string \<Rightarrow> avo_row list \<Rightarrow> real list" where
  "series_of n df = map val (filter (\<lambda>r. name r = n) df)"

definition shifted :: "(real list \<Rightarrow> real) \<Rightarrow> real \<Rightarrow> avo_row list \<Rightarrow> avo_row \<Rightarrow> avo_row" where
  "shifted meanf G df r = r \<lparr> val := fadd (val r) (fsub G (meanf (series_of (name r) df))) \<rparr>"

section \<open>Horizon files (load\_horizon in qc/utils.py)\<close>

text \<open>The character class \<^verbatim>\<open>[a-zA-Z:]\<close> of the first substitution.\<close>

definition is_alpha_or_colon :: "char \<Rightarrow> bool" where
  "is_alpha_or_colon c =
     ((CHR ''a'' \<le> c \<and> c \<le> CHR ''z'') \<or> (CHR ''A'' \<le> c \<and> c \<le> CHR ''Z'') \<or> c = CHR '':'')"

text \<open>
  The characters of a string are the code points below 256. Of these,
  \<^verbatim>\<open>str.strip()\<close>, \<^verbatim>\<open>int\<close> and \<^verbatim>\<open>float\<close> treat as white space the codes 9 to 13,
  28 to 32, 133 (next line) and 160 (no-break space).
\<close>

definition py_isspace :: "char \<Rightarrow> bool" where
  "py_isspace c =
     (let n = (of_char c :: nat)
      in (9 \<le> n \<and> n \<le> 13) \<or> (28 \<le> n \<and> n \<le> 32) \<or> n = 133 \<or> n = 160)"

definition py_strip :: "string \<Rightarrow> string" where
  "py_strip s = rev (dropWhile py_isspace (rev (dropWhile py_isspace s)))"

text \<open>\<^verbatim>\<open>re.sub(' +', ' ', s)\<close>: every run of spaces becomes one space.\<close>

fun collapse_spaces :: "string \<Rightarrow> string" where
  "collapse_spaces [] = []"
| "collapse_spaces [c] = [c]"
| "collapse_spaces (c # d # cs) =
     (if c = CHR '' '' \<and> d = CHR '' '' then collapse_spaces (d # cs)
      else c # collapse_spaces (d # cs))"

text \<open>
  \<^verbatim>\<open>s.split(sep)\<close> with an explicit one-character separator: empty pieces are kept,
  and the empty string splits into one empty piece.
\<close>

fun py_split :: "char \<Rightarrow> string \<Rightarrow> string list" where
  "py_split sep [] = [[]]"
| "py_split sep (c # cs) =
     (if c = sep then [] # py_split sep cs
      else (case py_split sep cs of t # ts \<Rightarrow> (c # t) # ts | [] \<Rightarrow> [[c]]))"

text \<open>
  Decimal literals as \<^verbatim>\<open>int\<close> and \<^verbatim>\<open>float\<close> read them: digits, with single
  underscores allowed between digits. \<open>digitpart\<close> returns the value and the number
  of digits.
\<close>

definition is_digit :: "char \<Rightarrow> bool" where
  "is_digit c = (CHR ''0'' \<le> c \<and> c \<le> CHR ''9'')"

definition digit_val :: "char \<Rightarrow> nat" where
  "digit_val c = of_char c - 48"

fun underscores_ok :: "string \<Rightarrow> bool" where
  "underscores_ok [] = False"
| "underscores_ok [c] = is_digit c"
| "underscores_ok (c # d # cs) =
     (is_digit c \<and> (if d = CHR ''_'' then underscores_ok cs else underscores_ok (d # cs)))"

definition digitpart :: "string \<Rightarrow> (nat \<times> nat) option" where
  "digitpart s =
     (if underscores_ok s
      then (let ds = filter is_digit s
            in Some (foldl (\<lambda>a c. 10 * a + digit_val c) 0 ds, length ds))
      else None)"

definition split_sign :: "string \<Rightarrow> bool \<times> string" where
  "split_sign s =
     (case s of c # cs \<Rightarrow> (if c = CHR ''-'' then (True, cs) else if c = CHR ''+'' then (False, cs) else (False, s))
              | [] \<Rightarrow> (False, []))"

text \<open>\<^verbatim>\<open>int(s)\<close> on a string, base ten; \<^verbatim>\<open>ValueError\<close> on anything else.\<close>

definition py_int :: "string \<Rightarrow> error + int" where
  "py_int s =
     (case split_sign (py_strip s) of (neg, body) \<Rightarrow>
        (case digitpart body of
           None \<Rightarrow> Inl ValueError
         | Some (v, n) \<Rightarrow> Inr (if neg then - int v else int v)))"

text \<open>
  \<^verbatim>\<open>float(s)\<close> on a string without letters (the tokens of a cleaned line have
  none, so exponents, \<^verbatim>\<open>inf\<close> and \<^verbatim>\<open>nan\<close> cannot occur): an optional sign and
  a decimal numeral with an optional point. \<open>decimal\<close> is the exact value of the
  numeral, and the result is the double nearest to it.
\<close>

definition decimal :: "string \<Rightarrow> real option" where
  "decimal body =
     (let ip = takeWhile (\<lambda>c. c \<noteq> CHR ''.'') body;
          rest = dropWhile (\<lambda>c. c \<noteq> CHR ''.'') body
      in case rest of
           [] \<Rightarrow> map_option (\<lambda>(v, n). real v) (digitpart ip)
         | dot # fp \<Rightarrow>
             (if ip = [] then map_option (\<lambda>(w, k). real w / 10 ^ k) (digitpart fp)
              else if fp = [] then map_option (\<lambda>(v, n). real v) (digitpart ip)
              else (case (digitpart ip, digitpart fp) of
                      (Some (v, n), Some (w, k)) \<Rightarrow> Some (real v + real w / 10 ^ k)
                    | _ \<Rightarrow> None)))"

definition py_float :: "string \<Rightarrow> error + real" where
  "py_float s =
     (case split_sign (py_strip s) of (neg, body) \<Rightarrow>
        (case decimal body of
           None \<Rightarrow> Inl ValueError
         | Some x \<Rightarrow> Inr (fl (if neg then - x else x))))"

text \<open>
  The two substitutions of \<^verbatim>\<open>load_horizon\<close>: letters and colons become spaces,
  the line is stripped, runs of spaces are collapsed.
\<close>

definition clean_line :: "string \<Rightarrow> string" where
  "clean_line line =
     collapse_spaces (py_strip (map (\<lambda>c. if is_alpha_or_colon c then CHR '' '' else c) line))"

text \<open>
  One iteration of \<^verbatim>\<open>for line in lines\<close>: \<open>Inr None\<close> for a skipped blank line,
  \<open>Inr (Some row)\<close> for an appended row, \<open>Inl e\<close> for a raised exception. The
  list display \<^verbatim>\<open>[int(line[0]), int(line[1]), float(line[-1])]\<close> is evaluated left to
  right; \<^verbatim>\<open>line[0]\<close> and \<^verbatim>\<open>line[-1]\<close> always exist, \<^verbatim>\<open>line[1]\<close> raises
  \<^verbatim>\<open>IndexError\<close> on a one-token line.
\<close>

definition parse_line :: "string \<Rightarrow> error + (int \<times> int \<times> real) option" where
  "parse_line line0 =
     (let line = clean_line line0
      in if line = [] then Inr None
         else (let toks = py_split (CHR '' '') line
               in case py_int (toks ! 0) of
                    Inl e \<Rightarrow> Inl e
                  | Inr il \<Rightarrow>
                      (if length toks < 2 then Inl IndexError
                       else case py_int (toks ! 1) of
                              Inl e \<Rightarrow> Inl e
                            | Inr xl \<Rightarrow>
                                (case py_float (last toks) of
                                   Inl e \<Rightarrow> Inl e
                                 | Inr t \<Rightarrow> Inr (Some (il, xl, t))))))"

text \<open>The loop over the lines; the first exception ends the load.\<close>

fun load_lines :: "string list \<Rightarrow> (int \<times> int \<times> real) list \<Rightarrow> error + (int \<times> int \<times> real) list" where
  "load_lines [] horizon_val = Inr horizon_val"
| "load_lines (line # lines) horizon_val =
     (case parse_line line of
        Inl e \<Rightarrow> Inl e
      | Inr None \<Rightarrow> load_lines lines horizon_val
      | Inr (Some row) \<Rightarrow> load_lines lines (horizon_val @ [row]))"

text \<open>\<^verbatim>\<open>load_horizon\<close> on the text of the file; the rows of the returned DataFrame.\<close>

definition load_horizon :: "string \<Rightarrow> error + (int \<times> int \<times> real) list" where
  "load_horizon text = load_lines (py_split (CHR 0x0A) text) []"

text \<open>The tokens of a line after cleaning.\<close>

definition tokens :: "string \<Rightarrow> string list" where
  "tokens line = py_split (CHR '' '') (clean_line line)"

section \<open>The AVO summary (avo\_plot in qc/utils.py): selector dispatch\<close>

text \<open>
  The arguments \<^verbatim>\<open>avg_method\<close> and \<^verbatim>\<open>stats\<close> are dynamically typed. A Python value
  is modelled as far as the dispatch inspects it: \<^verbatim>\<open>None\<close>, a string, a callable, a
  list, or any other object (one that is neither callable nor iterable, such as a
  number).
\<close>

datatype 'f py_val = PyNone | PyStr string | PyCallable 'f | PyList "'f py_val list" | PyOther

text \<open>
  Lines 252 to 256: \<^verbatim>\<open>'mean'\<close> selects the row-wise \<^verbatim>\<open>np.nanmean\<close> (passed in as
  \<open>nanmean_rows\<close>), a callable is kept, anything else raises \<^verbatim>\<open>ValueError\<close>.
\<close>

fun avo_plot_avg_method :: "'f \<Rightarrow> 'f py_val \<Rightarrow> error + 'f" where
  "avo_plot_avg_method nanmean_rows (PyStr s) =
     (if s = ''mean'' then Inr nanmean_rows else Inl ValueError)"
| "avo_plot_avg_method nanmean_rows (PyCallable f) = Inr f"
| "avo_plot_avg_method nanmean_rows _ = Inl ValueError"

text \<open>
  Lines 279 to 290, one iteration of \<^verbatim>\<open>for stat in stats\<close> on the pair
  \<open>(stats_val, stats_names)\<close>. The numbers the branches append are passed in:
  \<open>mean_std\<close> for \<^verbatim>\<open>np.mean(np.nanstd(nan_data[nonzeros], axis=1))\<close>, \<open>corr\<close> for
  \<^verbatim>\<open>np.corrcoef(avg_value, avg_approx)[0][1]\<close>, and \<open>call f\<close> for
  \<^verbatim>\<open>f(nan_data[nonzeros])\<close>. The last branch is the statement
  \<^verbatim>\<open>ValueError('Wrong stats type.')\<close>: it builds an exception object and drops it,
  there is no \<^verbatim>\<open>raise\<close>, so the iteration changes nothing.
\<close>

fun stats_step ::
  "'v \<Rightarrow> 'v \<Rightarrow> ('f \<Rightarrow> 'v) \<Rightarrow> 'f py_val \<Rightarrow> 'v list \<times> string list \<Rightarrow> 'v list \<times> string list" where
  "stats_step mean_std corr call (PyStr s) (stats_val, stats_names) =
     (if s = ''std'' then (stats_val @ [mean_std], stats_names @ [''Mean std''])
      else if s = ''corr'' then (stats_val @ [corr], stats_names @ [''Corr''])
      else (stats_val, stats_names))"
| "stats_step mean_std corr call (PyCallable f) (stats_val, stats_names) =
     (stats_val @ [call f], stats_names @ [''Callable stat''])"
| "stats_step mean_std corr call _ (stats_val, stats_names) = (stats_val, stats_names)"

text \<open>
  Lines 275 to 290: nothing for \<^verbatim>\<open>None\<close>; a string is wrapped in a list; a list is
  iterated; iterating anything else raises \<^verbatim>\<open>TypeError\<close>.
\<close>

fun avo_plot_stats ::
  "'v \<Rightarrow> 'v \<Rightarrow> ('f \<Rightarrow> 'v) \<Rightarrow> 'f py_val \<Rightarrow> error + ('v list \<times> string list)" where
  "avo_plot_stats mean_std corr call PyNone = Inr ([], [])"
| "avo_plot_stats mean_std corr call (PyStr s) =
     Inr (stats_step mean_std corr call (PyStr s) ([], []))"
| "avo_plot_stats mean_std corr call (PyList stats) =
     Inr (fold (stats_step mean_std corr call) stats ([], []))"
| "avo_plot_stats mean_std corr call _ = Inl TypeError"

section \<open>Offset binning of one gather (update\_avo\_params in qc/utils.py)\<close>

text \<open>
  A floating-point value of an amplitude or of an aggregate: a finite number (the real
  number it denotes), not-a-number, or an infinity.
\<close>

datatype fval = Num real | NaN | PosInf | NegInf

text \<open>
  \<^verbatim>\<open>np.nan_to_num(x, 0)\<close>: the second positional parameter of \<^verbatim>\<open>nan_to_num\<close> is
  \<^verbatim>\<open>copy\<close>, so the call uses the default replacements: not-a-number becomes \<open>0.0\<close>,
  plus and minus infinity become the largest and the most negative finite value of the
  argument's floating-point type.
\<close>

datatype dtype = Float32 | Float64

fun finfo_max :: "dtype \<Rightarrow> real" where
  "finfo_max Float32 = (2 ^ 24 - 1) * 2 ^ 104"
| "finfo_max Float64 = (2 ^ 53 - 1) * 2 ^ 971"

fun nan_to_num :: "dtype \<times> fval \<Rightarrow> fval" where
  "nan_to_num (dt, Num x) = Num x"
| "nan_to_num (dt, NaN) = Num 0"
| "nan_to_num (dt, PosInf) = Num (finfo_max dt)"
| "nan_to_num (dt, NegInf) = Num (- finfo_max dt)"

text \<open>
  Arrays live in a store, since the code writes through them. A buffer is the data of
  a two-dimensional array, row by row. An array object reads and writes the buffer at
  \<open>base\<close>, all its rows, columns \<open>col_start\<close> up to \<open>col_stop\<close>: a fresh array spans
  its whole buffer, a basic slice is a view on the same buffer.
\<close>

type_synonym addr = nat

record heap =
  bufs :: "addr \<Rightarrow> fval list list"
  next_addr :: addr

record ndarray =
  base :: addr
  nrows :: nat
  col_start :: nat
  col_stop :: nat

definition ncols :: "ndarray \<Rightarrow> nat" where
  "ncols a = col_stop a - col_start a"

definition np_size :: "ndarray \<Rightarrow> nat" where
  "np_size a = nrows a * ncols a"

definition row_window :: "ndarray \<Rightarrow> fval list \<Rightarrow> fval list" where
  "row_window a r = take (ncols a) (drop (col_start a) r)"

definition contents :: "heap \<Rightarrow> ndarray \<Rightarrow> fval list list" where
  "contents h a = map (row_window a) (bufs h (base a))"

text \<open>
  \<^verbatim>\<open>a[msk]\<close> with a boolean array over the rows: advanced indexing, which always
  copies. The selected rows go to a fresh buffer; a mask of the wrong length raises
  \<^verbatim>\<open>IndexError\<close>.
\<close>

definition np_bool_index :: "heap \<Rightarrow> ndarray \<Rightarrow> bool list \<Rightarrow> error + (ndarray \<times> heap)" where
  "np_bool_index h a msk =
     (if length msk \<noteq> nrows a then Inl IndexError
      else
        let rows = bool_select (contents h a) msk;
            new = next_addr h
        in Inr (\<lparr> base = new, nrows = length rows, col_start = 0, col_stop = ncols a \<rparr>,
                h \<lparr> bufs := (bufs h)(new := rows), next_addr := Suc new \<rparr>))"

text \<open>
  \<^verbatim>\<open>a[:, lo:hi]\<close>: basic slicing, a view on the same buffer. Negative bounds count
  from the end and bounds are clipped to the width, as Python slices do.
\<close>

definition slice_index :: "nat \<Rightarrow> int \<Rightarrow> nat" where
  "slice_index n i = (if i < 0 then nat (max (i + int n) 0) else min (nat i) n)"

definition np_slice_cols :: "ndarray \<Rightarrow> int \<Rightarrow> int \<Rightarrow> ndarray" where
  "np_slice_cols a lo hi =
     (let lo' = slice_index (ncols a) lo;
          hi' = max lo' (slice_index (ncols a) hi)
      in a \<lparr> col_start := col_start a + lo', col_stop := col_start a + hi' \<rparr>)"

text \<open>\<^verbatim>\<open>a[a == 0] = np.nan\<close>: an in-place write to the buffer of \<open>a\<close>, inside its window.\<close>

definition zero_to_nan :: "fval \<Rightarrow> fval" where
  "zero_to_nan x = (if x = Num 0 then NaN else x)"

definition set_zero_to_nan :: "heap \<Rightarrow> ndarray \<Rightarrow> heap" where
  "set_zero_to_nan h a =
     h \<lparr> bufs := (bufs h)(base a :=
            map (\<lambda>r. take (col_start a) r @ map zero_to_nan (row_window a r)
                        @ drop (col_start a + ncols a) r)
                (bufs h (base a))) \<rparr>"

text \<open>
  \<^verbatim>\<open>bin_size\<close> is an \<^verbatim>\<open>int\<close> or an array of bin edges. \<open>offset\<close> is the sorted
  offset column; \<^verbatim>\<open>offset[-1]\<close> raises \<^verbatim>\<open>IndexError\<close> when it is empty and
  \<^verbatim>\<open>np.arange\<close> raises on a zero step. The sums \<^verbatim>\<open>offset[-1] + bin_size\<close> and
  \<^verbatim>\<open>offset[-1] + 1\<close> are rounded; from the start \<open>0\<close>, the elements of
  \<^verbatim>\<open>np.arange\<close> are the rounded multiples of the step, as in \<open>np_arange\<close>.
\<close>

datatype bin_spec = BinWidth int | BinEdges "real list"

definition make_step_list :: "bin_spec \<Rightarrow> real list \<Rightarrow> error + real list" where
  "make_step_list bin_size offset =
     (if offset = [] then Inl IndexError
      else case bin_size of
             BinWidth w \<Rightarrow>
               (if w = 0 then Inl ZeroStepError
                else Inr (np_arange 0 (fadd (last offset) (real_of_int w)) (real_of_int w)))
           | BinEdges es \<Rightarrow> Inr (filter (\<lambda>e. e < last offset) es @ [fadd (last offset) 1]))"

text \<open>
  \<^verbatim>\<open>calc_method\<close>: the caller's aggregator, from the values of the sub-array to a
  scalar and its floating-point type.
\<close>

type_synonym aggregator = "fval list list \<Rightarrow> dtype \<times> fval"

text \<open>
  Lines 152 to 159: one iteration of \<^verbatim>\<open>for i, stp in enumerate(step_list[:-1])\<close> on
  the pair of \<^verbatim>\<open>storage\<close> and the store. \<open>window\<close> is \<^verbatim>\<open>(window[0], window[1])\<close> in
  samples, as passed or as computed from the horizon. Storing beyond \<^verbatim>\<open>storage_size\<close>
  raises \<^verbatim>\<open>IndexError\<close>.
\<close>

definition bin_step ::
  "ndarray \<Rightarrow> real list \<Rightarrow> real list \<Rightarrow> int \<times> int \<Rightarrow> aggregator \<Rightarrow> nat
     \<Rightarrow> fval list \<times> heap \<Rightarrow> error + (fval list \<times> heap)" where
  "bin_step field offset step_list window calc_method i st =
     (case st of (storage, h) \<Rightarrow>
        (case np_bool_index h field
                (map (\<lambda>off. off \<ge> step_list ! i \<and> off < step_list ! (i + 1)) offset) of
           Inl e \<Rightarrow> Inl e
         | Inr (subfield, h1) \<Rightarrow>
             if np_size subfield = 0
             then (if i < length storage then Inr (storage[i := Num 0], h1) else Inl IndexError)
             else
               let subfield' = np_slice_cols subfield (fst window) (snd window + 1);
                   h2 = set_zero_to_nan h1 subfield';
                   v = nan_to_num (calc_method (contents h2 subfield'))
               in if i < length storage then Inr (storage[i := v], h2) else Inl IndexError))"

fun bin_loop ::
  "ndarray \<Rightarrow> real list \<Rightarrow> real list \<Rightarrow> int \<times> int \<Rightarrow> aggregator \<Rightarrow> nat list
     \<Rightarrow> fval list \<times> heap \<Rightarrow> error + (fval list \<times> heap)" where
  "bin_loop field offset step_list window calc_method [] st = Inr st"
| "bin_loop field offset step_list window calc_method (i # is) st =
     (case bin_step field offset step_list window calc_method i st of
        Inl e \<Rightarrow> Inl e
      | Inr st' \<Rightarrow> bin_loop field offset step_list window calc_method is st')"

text \<open>
  The body of \<^verbatim>\<open>for idx in batch.indices\<close> from the sorted offsets on, for one
  gather: \<open>field\<close> is the amplitude matrix of the gather, \<open>offset_column\<close> is
  \<^verbatim>\<open>batch_df['offset']\<close>. The result is \<^verbatim>\<open>storage\<close> and the store afterwards. The mask
  of a bin is taken on the sorted offsets and applied to the rows of \<open>field\<close> by
  position.
\<close>

definition bin_gather ::
  "heap \<Rightarrow> ndarray \<Rightarrow> real list \<Rightarrow> bin_spec \<Rightarrow> nat \<Rightarrow> int \<times> int \<Rightarrow> aggregator
     \<Rightarrow> error + (fval list \<times> heap)" where
  "bin_gather h field offset_column bin_size storage_size window calc_method =
     (let offset = sort offset_column
      in case make_step_list bin_size offset of
           Inl e \<Rightarrow> Inl e
         | Inr step_list \<Rightarrow>
             bin_loop field offset step_list window calc_method
               [0..<length step_list - 1] (replicate storage_size (Num 0), h))"

text \<open>
  An array is well formed in a store when its buffer is allocated and has the shape
  the array claims.
\<close>

definition wf_array :: "heap \<Rightarrow> ndarray \<Rightarrow> bool" where
  "wf_array h a \<longleftrightarrow>
     base a < next_addr h \<and> length (bufs h (base a)) = nrows a
     \<and> col_start a \<le> col_stop a \<and> list_all (\<lambda>r. col_stop a \<le> length r) (bufs h (base a))"

text \<open>The store \<open>h'\<close> extends \<open>h\<close>: every buffer allocated in \<open>h\<close> is unchanged.\<close>

definition frame :: "heap \<Rightarrow> heap \<Rightarrow> bool" where
  "frame h h' \<longleftrightarrow> next_addr h \<le> next_addr h' \<and> (\<forall>a<next_addr h. bufs h' a = bufs h a)"

text \<open>
  For the statements, in the words of the specification: a Python slice of a row; the
  value of one bin from the traces, their offsets and the bounds of the bin; and the
  whole vector.
\<close>

definition py_slice :: "int \<Rightarrow> int \<Rightarrow> 'a list \<Rightarrow> 'a list" where
  "py_slice lo hi r =
     (let lo' = slice_index (length r) lo;
          hi' = max lo' (slice_index (length r) hi)
      in take (hi' - lo') (drop lo' r))"

definition bin_value ::
  "fval list list \<Rightarrow> real list \<Rightarrow> real \<Rightarrow> real \<Rightarrow> int \<times> int \<Rightarrow> aggregator \<Rightarrow> fval" where
  "bin_value traces offset bin_start bin_end window calc_method =
     (let selected = bool_select traces (map (\<lambda>off. bin_start \<le> off \<and> off < bin_end) offset)
      in if selected = [] \<or> hd selected = [] then Num 0
         else nan_to_num (calc_method
                (map (\<lambda>r. map zero_to_nan (py_slice (fst window) (snd window + 1) r)) selected)))"

definition gather_bins ::
  "fval list list \<Rightarrow> real list \<Rightarrow> real list \<Rightarrow> nat \<Rightarrow> int \<times> int \<Rightarrow> aggregator \<Rightarrow> fval list" where
  "gather_bins traces offset step_list storage_size window calc_method =
     map (\<lambda>i. bin_value traces offset (step_list ! i) (step_list ! (i + 1)) window calc_method)
         [0..<length step_list - 1]
     @ replicate (storage_size - (length step_list - 1)) (Num 0)"

section \<open>Results about rounding\<close>

lemma fl_zero [simp]: "fl 0 = 0"
  by (simp add: fl_def)


section \<open>Results about MetricsMap\<close>

lemma first_index_less: "c \<in> set cs \<Longrightarrow> first_index c cs < length cs"
  by (induction cs) auto

lemma nth_first_index: "c \<in> set cs \<Longrightarrow> cs ! first_index c cs = c"
  by (induction cs) auto

lemma inj_on_first_index: "inj_on (\<lambda>c. first_index c cs) (set cs)"
  by (rule inj_onI) (metis nth_first_index)

lemma first_index_append:
  "first_index c (cs @ [x]) = (if c \<in> set cs then first_index c cs else if c = x then length cs else Suc (length cs))"
  by (induction cs) auto

lemma keep_first_snoc:
  "keep_first (cs @ [x]) = (if x \<in> set cs then keep_first cs else keep_first cs @ [x])"
  by (simp add: keep_first_def)

lemma set_keep_first [simp]: "set (keep_first cs) = set cs"
  by (simp add: keep_first_def)

lemma distinct_keep_first [simp]: "distinct (keep_first cs)"
  by (simp add: keep_first_def)

lemma sorted_first_index_keep_first:
  "sorted (map (\<lambda>c. first_index c cs) (keep_first cs))"
proof (induction cs rule: rev_induct)
  case Nil
  show ?case by (simp add: keep_first_def)
next
  case (snoc x cs)
  have old: "map (\<lambda>c. first_index c (cs @ [x])) (keep_first cs) = map (\<lambda>c. first_index c cs) (keep_first cs)"
    by (rule map_cong) (auto simp: first_index_append)
  show ?case
  proof (cases "x \<in> set cs")
    case True
    then show ?thesis using snoc by (simp add: keep_first_snoc old)
  next
    case False
    have "\<forall>a\<in>set (map (\<lambda>c. first_index c cs) (keep_first cs)). a \<le> length cs"
      using first_index_less[of _ cs] by (auto simp: less_imp_le)
    moreover have "first_index x (cs @ [x]) = length cs"
      using False by (simp add: first_index_append)
    ultimately show ?thesis
      using False snoc by (simp add: keep_first_snoc old sorted_append)
  qed
qed

lemma set_argsort: "set (np_argsort p) = {0..<length p}"
proof -
  have "map snd (zip p [0..<length p]) = [0..<length p]"
    by (rule map_snd_zip) simp
  then have "snd ` set (zip p [0..<length p]) = {0..<length p}"
    by (metis set_map set_upt)
  then show ?thesis
    by (simp add: np_argsort_def)
qed

lemma argsort_sorted:
  "sorted (map (\<lambda>k. p ! k) (np_argsort p))"
  "set (map (\<lambda>k. p ! k) (np_argsort p)) = set p"
  "length (np_argsort p) = length p"
proof -
  let ?zs = "zip p [0..<length p]"
  let ?S = "sort_key fst ?zs"
  have mem: "\<forall>z\<in>set ?S. p ! snd z = fst z"
    by (auto simp: set_zip)
  have "map (\<lambda>k. p ! k) (np_argsort p) = map (\<lambda>z. p ! snd z) ?S"
    by (simp add: np_argsort_def comp_def)
  also have "\<dots> = map fst ?S"
    by (rule map_cong) (use mem in auto)
  finally have eq: "map (\<lambda>k. p ! k) (np_argsort p) = map fst ?S" .
  show "sorted (map (\<lambda>k. p ! k) (np_argsort p))"
    unfolding eq by (rule sorted_sort_key)
  have "map fst ?zs = p"
    by (rule map_fst_zip) simp
  then have "fst ` set ?zs = set p"
    by (metis set_map)
  then show "set (map (\<lambda>k. p ! k) (np_argsort p)) = set p"
    unfolding eq by simp
  show "length (np_argsort p) = length p" by (simp add: np_argsort_def)
qed

text \<open>
  The coordinates the constructor keeps are the first occurrences, in insertion order;
  the sample list pairs them, position by position, with the values as supplied.
\<close>

lemma coords_keep_first:
  "coords (MetricsMap_init ms cs) = keep_first cs"
proof -
  let ?fi = "\<lambda>c. first_index c cs"
  let ?U = "sort (remdups cs)"
  let ?p = "map ?fi ?U"
  let ?L = "map (\<lambda>k. ?U ! k) (np_argsort ?p)"
  have U: "distinct ?U" "set ?U = set cs" by simp_all
  have lp: "length ?p = length ?U" by simp
  have fiL: "map ?fi ?L = map (\<lambda>k. ?p ! k) (np_argsort ?p)"
    using set_argsort[of ?p] by (auto simp: comp_def)
  have dp: "distinct ?p"
    using U inj_on_first_index[of cs] by (simp add: distinct_map)
  have "card (set (map (\<lambda>k. ?p ! k) (np_argsort ?p))) = length (map (\<lambda>k. ?p ! k) (np_argsort ?p))"
    using argsort_sorted(2,3)[of ?p] distinct_card[OF dp] by simp
  then have dL: "distinct (map ?fi ?L)"
    unfolding fiL by (rule card_distinct)
  have setL: "set ?L = set cs"
  proof -
    have "set ?L = (\<lambda>k. ?U ! k) ` {0..<length ?U}"
      using set_argsort[of ?p] by simp
    also have "\<dots> = set ?U"
      by (auto simp: set_conv_nth)
    finally show ?thesis using U by simp
  qed
  have s1: "sorted (map ?fi ?L)" "set (map ?fi ?L) = ?fi ` set cs"
    unfolding fiL using argsort_sorted(1,2)[of ?p] U by simp_all
  have s2: "sorted (map ?fi (keep_first cs))" "distinct (map ?fi (keep_first cs))"
           "set (map ?fi (keep_first cs)) = ?fi ` set cs"
    using sorted_first_index_keep_first[of cs] inj_on_first_index[of cs]
    by (simp_all add: distinct_map)
  have eq: "map ?fi ?L = map ?fi (keep_first cs)"
    using s1 dL s2 by (metis sorted_distinct_set_unique)
  have inj: "inj_on ?fi (set ?L \<union> set (keep_first cs))"
    unfolding setL using inj_on_first_index[of cs] by simp
  have "?L = keep_first cs"
    using inj_on_map_eq_map[OF inj] eq by blast
  then show ?thesis
    by (simp add: MetricsMap_init_def np_unique_rows_def Let_def)
qed

lemma maps_list_keep_first:
  "maps_list (MetricsMap_init ms cs) = map (\<lambda>((x, y), m). (x, y, m)) (zip (keep_first cs) ms)"
  using coords_keep_first[of ms cs]
  by (simp add: MetricsMap_init_def np_unique_rows_def Let_def)

text \<open>
  C1 (evaluation at the spec's own scenario). The constructor deduplicates the
  coordinates, keeping first occurrences in insertion order, but pairs the k-th
  retained coordinate with the k-th supplied value (lemma \<open>maps_list_keep_first\<close>):
  the values are never selected through the first-occurrence positions. On
  \<open>build([(0,0),(0,0),(1,1)], [10, 20, 30])\<close> the two samples carry the values
  \<open>10\<close> and \<open>20\<close>, not \<open>10\<close> and \<open>30\<close>.
\<close>

theorem build_pairs_kth_value_with_kth_coord:
  "maps_list (MetricsMap_init [10, 20, 30 :: int] [(0, 0), (0, 0), (1, 1 :: int)])
     = [(0, 0, 10), (1, 1, 20)]"
  by code_simp

text \<open>
  C7. \<open>A.append(B)\<close> makes the sample list of \<open>A\<close> the concatenation of its previous
  sample list with the sample list of \<open>B\<close> and changes nothing else; nothing is
  deduplicated, so at every coordinate the merged map holds as many samples as \<open>A\<close> and
  \<open>B\<close> held together.
\<close>

theorem append_concatenates:
  "maps_list (MetricsMap_append A B) = maps_list A @ maps_list B
   \<and> MetricsMap_append A B = A \<lparr> maps_list := maps_list A @ maps_list B \<rparr>
   \<and> (\<forall>c. samples_at c (MetricsMap_append A B) = samples_at c A + samples_at c B)"
  by (simp add: MetricsMap_append_def samples_at_def)

section \<open>Results about the bin grid\<close>










section \<open>Results about linear\_diff\<close>















section \<open>Results about the comparison table\<close>

lemma take_index_filter:
  "map (\<lambda>k. xs ! k) (filter (\<lambda>k. P (xs ! k)) [0..<length xs]) = filter P xs"
proof (induction xs rule: rev_induct)
  case Nil
  show ?case by simp
next
  case (snoc x xs)
  have "filter (\<lambda>k. P ((xs @ [x]) ! k)) [0..<length xs] = filter (\<lambda>k. P (xs ! k)) [0..<length xs]"
    by (rule filter_cong) (auto simp: nth_append)
  moreover have "map (\<lambda>k. (xs @ [x]) ! k) (filter (\<lambda>k. P (xs ! k)) [0..<length xs])
      = map (\<lambda>k. xs ! k) (filter (\<lambda>k. P (xs ! k)) [0..<length xs])"
    by (rule map_cong) (auto simp: nth_append)
  ultimately show ?case using snoc.IH by (simp add: nth_append)
qed

lemma zip_selected:
  assumes "length os = length vs"
  shows "zip (map (\<lambda>k. vs ! k) (filter (\<lambda>k. P (vs ! k)) [0..<length vs]))
             (map (\<lambda>k. os ! k) (filter (\<lambda>k. P (vs ! k)) [0..<length vs]))
         = filter (\<lambda>(v, off). P v) (zip vs os)"
proof -
  let ?ks = "filter (\<lambda>k. P (vs ! k)) [0..<length vs]"
  let ?zs = "zip vs os"
  let ?Q = "\<lambda>(v, off). P v"
  have len: "length ?zs = length vs" using assms by simp
  have ks: "?ks = filter (\<lambda>k. ?Q (?zs ! k)) [0..<length ?zs]"
    unfolding len by (rule filter_cong) (use assms in auto)
  have "zip (map (\<lambda>k. vs ! k) ?ks) (map (\<lambda>k. os ! k) ?ks) = map (\<lambda>k. (vs ! k, os ! k)) ?ks"
    by (simp add: zip_map_map zip_same_conv_map)
  also have "\<dots> = map (\<lambda>k. ?zs ! k) ?ks"
    by (rule map_cong) (use assms in auto)
  also have "\<dots> = map (\<lambda>k. ?zs ! k) (filter (\<lambda>k. ?Q (?zs ! k)) [0..<length ?zs])"
    using ks by simp
  also have "\<dots> = filter ?Q ?zs"
    by (rule take_index_filter)
  finally show ?thesis .
qed

lemma zip_concat_replicate:
  assumes "\<forall>i\<in>set is. length (f i) = m"
  shows "zip (concat (map f is)) (concat (map (\<lambda>i. replicate m (g i)) is))
         = concat (map (\<lambda>i. map (\<lambda>v. (v, g i)) (f i)) is)"
  using assms
proof (induction "is")
  case Nil
  show ?case by simp
next
  case (Cons i "is")
  have "zip (f i) (replicate m (g i)) = map (\<lambda>v. (v, g i)) (f i)"
    using Cons.prems by (simp add: zip_replicate2 min_def)
  then show ?case using Cons by simp
qed

lemma transpose_columns:
  assumes "\<forall>r\<in>set results0. length r = nbins" "results0 \<noteq> []"
  shows "transpose results0 = map (column results0) [0..<nbins]"
proof -
  have "transpose results0 = map (\<lambda>i. map (\<lambda>j. results0 ! j ! i) [0..<length results0]) [0..<nbins]"
    by (rule transpose_rectangle) (use assms in auto)
  moreover have "\<And>i. map (\<lambda>j. results0 ! j ! i) [0..<length results0] = column results0 i"
    unfolding column_def by (rule nth_equalityI) auto
  ultimately show ?thesis by simp
qed

lemma series_rows_char:
  assumes rect: "\<forall>r\<in>set results0. length r = nbins"
  shows "series_rows sumf results0 bin_size nm =
     concat (map (\<lambda>i. map (\<lambda>v. \<lparr> val = v, indices = fmul (real i) bin_size, name = nm \<rparr>)
                           (filter (\<lambda>v. v \<noteq> 0) (column results0 i)))
                 (filter (\<lambda>i. sumf (column results0 i) \<noteq> 0) [0..<nbins]))"
proof (cases "results0 = []")
  case True
  then show ?thesis
    by (simp add: series_rows_def np_nonzero_def np_repeat_def column_def)
next
  case False
  let ?T = "transpose results0"
  let ?m = "length results0"
  let ?ixs = "filter (\<lambda>i. sumf (column results0 i) \<noteq> 0) [0..<nbins]"
  have T: "?T = map (column results0) [0..<nbins]"
    using transpose_columns[OF rect False] .
  have ixs: "np_nonzero (map sumf ?T) = ?ixs"
    unfolding np_nonzero_def T by (rule filter_cong) auto
  have sub: "set ?ixs \<subseteq> {0..<nbins}" by auto
  let ?vs = "concat (map (\<lambda>i. ?T ! i) ?ixs)"
  let ?offs = "np_repeat (map (\<lambda>i. fmul (real i) bin_size) ?ixs) ?m"
  have vs_eq: "?vs = concat (map (column results0) ?ixs)"
    unfolding T by (rule arg_cong[where f=concat], rule map_cong) auto
  have offs: "?offs = concat (map (\<lambda>i. replicate ?m (fmul (real i) bin_size)) ?ixs)"
    by (simp add: np_repeat_def comp_def)
  have z: "zip ?vs ?offs
      = concat (map (\<lambda>i. map (\<lambda>v. (v, fmul (real i) bin_size)) (column results0 i)) ?ixs)"
    unfolding vs_eq offs by (rule zip_concat_replicate) (simp add: column_def)
  have len: "length ?offs = length ?vs"
    unfolding vs_eq offs by (simp add: length_concat comp_def column_def)
  have "series_rows sumf results0 bin_size nm
      = map (\<lambda>(v, off). \<lparr> val = v, indices = off, name = nm \<rparr>)
          (zip (map (\<lambda>k. ?vs ! k) (filter (\<lambda>k. ?vs ! k \<noteq> 0) [0..<length ?vs]))
               (map (\<lambda>k. ?offs ! k) (filter (\<lambda>k. ?vs ! k \<noteq> 0) [0..<length ?vs])))"
    by (simp add: series_rows_def Let_def ixs np_nonzero_def[of "concat _"])
  also have "\<dots> = map (\<lambda>(v, off). \<lparr> val = v, indices = off, name = nm \<rparr>)
          (filter (\<lambda>(v, off). v \<noteq> 0) (zip ?vs ?offs))"
    using zip_selected[OF len, of "\<lambda>v. v \<noteq> 0"] by simp
  also have "\<dots> = concat (map (\<lambda>i. map (\<lambda>v. \<lparr> val = v, indices = fmul (real i) bin_size, name = nm \<rparr>)
                           (filter (\<lambda>v. v \<noteq> 0) (column results0 i))) ?ixs)"
    unfolding z by (simp add: map_concat filter_concat comp_def filter_map)
  finally show ?thesis .
qed

lemma loc_assign_group:
  "loc_assign n (map f (filter (\<lambda>r. name r = n) d)) d
     = map (\<lambda>r. if name r = n then r \<lparr> val := f r \<rparr> else r) d"
  by (induction d) auto

lemma name_shifted [simp]: "name (shifted meanf G df r) = name r"
  by (simp add: shifted_def)

lemma filter_name_map_other:
  assumes "n \<notin> K" "\<And>r. name (g r) = name r"
  shows "filter (\<lambda>r. name r = n) (map (\<lambda>r. if name r \<in> K then g r else r) d)
         = filter (\<lambda>r. name r = n) d"
  using assms by (induction d) auto

lemma fold_align:
  assumes "distinct ks" "set ks \<inter> K = {}"
  shows "fold (align_group meanf G) (map (\<lambda>n. (n, filter (\<lambda>r. name r = n) df)) ks)
              (map (\<lambda>r. if name r \<in> K then shifted meanf G df r else r) df)
         = map (\<lambda>r. if name r \<in> K \<union> set ks then shifted meanf G df r else r) df"
  using assms
proof (induction ks arbitrary: K)
  case Nil
  show ?case by simp
next
  case (Cons n ks)
  let ?d = "map (\<lambda>r. if name r \<in> K then shifted meanf G df r else r) df"
  let ?grp = "filter (\<lambda>r. name r = n) df"
  let ?align = "fsub G (meanf (map val ?grp))"
  have nK: "n \<notin> K" using Cons.prems by auto
  have grp: "filter (\<lambda>r. name r = n) ?d = ?grp"
    by (rule filter_name_map_other[OF nK]) simp
  have "align_group meanf G (n, ?grp) ?d = loc_assign n (map (\<lambda>r. fadd (val r) ?align) (filter (\<lambda>r. name r = n) ?d)) ?d"
    by (simp add: align_group_def grp)
  also have "\<dots> = map (\<lambda>r. if name r = n then r \<lparr> val := fadd (val r) ?align \<rparr> else r) ?d"
    by (rule loc_assign_group)
  also have "\<dots> = map (\<lambda>r. if name r \<in> insert n K then shifted meanf G df r else r) df"
    using nK by (auto simp: shifted_def series_of_def)
  finally have step: "align_group meanf G (n, ?grp) ?d
      = map (\<lambda>r. if name r \<in> insert n K then shifted meanf G df r else r) df" .
  have "fold (align_group meanf G) (map (\<lambda>n. (n, filter (\<lambda>r. name r = n) df)) ks)
          (map (\<lambda>r. if name r \<in> insert n K then shifted meanf G df r else r) df)
        = map (\<lambda>r. if name r \<in> insert n K \<union> set ks then shifted meanf G df r else r) df"
    by (rule Cons.IH) (use Cons.prems in auto)
  then show ?case using step by simp
qed

lemma align_mean_table_shift:
  "align_mean_table meanf df = map (shifted meanf (meanf (map val df)) df) df"
proof -
  let ?ks = "sort (remdups (map name df))"
  have "fold (align_group meanf (meanf (map val df))) (map (\<lambda>n. (n, filter (\<lambda>r. name r = n) df)) ?ks)
              (map (\<lambda>r. if name r \<in> {} then shifted meanf (meanf (map val df)) df r else r) df)
         = map (\<lambda>r. if name r \<in> {} \<union> set ?ks then shifted meanf (meanf (map val df)) df r else r) df"
    by (rule fold_align) auto
  moreover have "map (\<lambda>r. if name r \<in> {} \<union> set ?ks then shifted meanf (meanf (map val df)) df r else r) df
      = map (shifted meanf (meanf (map val df)) df) df"
    by (rule map_cong) auto
  ultimately show ?thesis
    by (simp add: align_mean_table_def groupby_name_def)
qed

text \<open>
  C10 (as amended). In the table of one series, the values of bin \<open>i\<close> are kept exactly
  when the sum of the bin's values over all gathers, as \<^verbatim>\<open>np.sum\<close> computes it in
  double precision, is not zero, and within a kept bin exactly the non-zero cells are
  kept, each with the bin's offset \<open>i * bin_size\<close>.
\<close>

theorem series_rows_retains_nonzero_sum_bins:
  assumes "\<forall>r\<in>set results0. length r = nbins"
  shows "series_rows sumf results0 bin_size nm =
     concat (map (\<lambda>i. map (\<lambda>v. \<lparr> val = v, indices = fmul (real i) bin_size, name = nm \<rparr>)
                           (filter (\<lambda>v. v \<noteq> 0) (column results0 i)))
                 (filter (\<lambda>i. sumf (column results0 i) \<noteq> 0) [0..<nbins]))"
  using assms by (rule series_rows_char)

theorem series_rows_retains_nonzero_sum_bins_witness:
  "series_rows np_sum [[1, 0, 2, 0], [-1, 0, 3, 5]] 10 ''a''
     = [\<lparr> val = 2, indices = 20, name = ''a'' \<rparr>,
        \<lparr> val = 3, indices = 20, name = ''a'' \<rparr>,
        \<lparr> val = 5, indices = 30, name = ''a'' \<rparr>]"
proof -
  have h: "\<forall>r\<in>set [[1, 0, 2, 0], [-1, 0, 3, 5 :: real]]. length r = 4"
    by simp
  have e: "concat (map (\<lambda>i. map (\<lambda>v. \<lparr> val = v, indices = fmul (real i) 10, name = ''a'' \<rparr>)
                           (filter (\<lambda>v. v \<noteq> 0) (column [[1, 0, 2, 0], [-1, 0, 3, 5]] i)))
                 (filter (\<lambda>i. np_sum (column [[1, 0, 2, 0], [-1, 0, 3, 5]] i) \<noteq> 0) [0..<4]))
     = [\<lparr> val = 2, indices = 20, name = ''a'' \<rparr>,
        \<lparr> val = 3, indices = 20, name = ''a'' \<rparr>,
        \<lparr> val = 5, indices = 30, name = ''a'' \<rparr>]"
    by code_simp
  show ?thesis
    unfolding series_rows_retains_nonzero_sum_bins[OF h, of np_sum 10 "''a''"] by (rule e)
qed

text \<open>
  C10 (counterexample to the claim as stated). Three gathers with the values
  \<open>10 ^ 16\<close>, \<open>1\<close> and \<open>- 10 ^ 16\<close> in their only bin: the sum of the values is
  \<open>1\<close>, but \<open>10 ^ 16 + 1\<close> rounds to \<open>10 ^ 16\<close>, the computed sum is \<open>0\<close>, and the
  bin is dropped with its three non-zero values.
\<close>

theorem nonzero_sum_bin_dropped:
  "sum_list (column [[10 ^ 16], [1], [- (10 ^ 16)]] 0) = 1
   \<and> np_sum (column [[10 ^ 16], [1], [- (10 ^ 16)]] 0) = 0
   \<and> series_rows np_sum [[10 ^ 16], [1], [- (10 ^ 16)]] 10 ''a'' = []"
  by code_simp

text \<open>
  C5 (as amended). With mean alignment enabled, the table is the unaligned table with
  every value moved by a constant of its series: the general mean of the unaligned
  table minus the mean of the series, that difference and every sum being rounded.
\<close>

theorem align_mean_shifts_each_series:
  "std_plot_table sumf meanf series bin_size True
     = map (shifted meanf (meanf (map val (std_plot_table sumf meanf series bin_size False)))
                    (std_plot_table sumf meanf series bin_size False))
           (std_plot_table sumf meanf series bin_size False)"
  by (simp add: std_plot_table_def Let_def align_mean_table_shift)

theorem align_mean_shifts_each_series_witness:
  "std_plot_table np_sum np_mean [([[1, 2]], ''a''), ([[4, 4]], ''b'')] 10 True
     = [\<lparr> val = 9 / 4, indices = 0, name = ''a'' \<rparr>,
        \<lparr> val = 13 / 4, indices = 10, name = ''a'' \<rparr>,
        \<lparr> val = 11 / 4, indices = 0, name = ''b'' \<rparr>,
        \<lparr> val = 11 / 4, indices = 10, name = ''b'' \<rparr>]"
proof -
  let ?S = "[([[1, 2]], ''a''), ([[4, 4 :: real]], ''b'')]"
  let ?df = "[\<lparr> val = 1, indices = 0, name = ''a'' \<rparr>,
        \<lparr> val = 2, indices = 10, name = ''a'' \<rparr>,
        \<lparr> val = 4, indices = 0, name = ''b'' \<rparr>,
        \<lparr> val = 4 :: real, indices = 10 :: real, name = ''b'' \<rparr>]"
  have df: "std_plot_table np_sum np_mean ?S 10 False = ?df"
    by code_simp
  have G: "np_mean (map val ?df) = 11 / 4"
    by code_simp
  have sh: "map (shifted np_mean (11 / 4) ?df) ?df
     = [\<lparr> val = 9 / 4, indices = 0, name = ''a'' \<rparr>,
        \<lparr> val = 13 / 4, indices = 10, name = ''a'' \<rparr>,
        \<lparr> val = 11 / 4, indices = 0, name = ''b'' \<rparr>,
        \<lparr> val = 11 / 4, indices = 10, name = ''b'' \<rparr>]"
    by code_simp
  show ?thesis
    unfolding align_mean_shifts_each_series[of np_sum np_mean ?S 10] df G by (rule sh)
qed

text \<open>
  C5 (counterexample to the claim as stated). Series \<open>a\<close> with the values \<open>2, 3, 5\<close>
  and series \<open>b\<close> with four values \<open>4\<close>: the general mean is the double nearest to
  \<open>26 / 7\<close>. After the alignment the mean of series \<open>a\<close> is one unit in the last
  place below that double, and the general mean of the table one unit above it.
\<close>

theorem aligned_means_differ:
  "np_mean (map val (std_plot_table np_sum np_mean
       [([[1, 0, 2, 0], [-1, 0, 3, 5]], ''a''), ([[4, 4, 4, 4]], ''b'')] 10 False))
     = 8363827879402350 / 2 ^ 51
   \<and> np_mean (series_of ''a'' (std_plot_table np_sum np_mean
       [([[1, 0, 2, 0], [-1, 0, 3, 5]], ''a''), ([[4, 4, 4, 4]], ''b'')] 10 True))
     = 8363827879402349 / 2 ^ 51
   \<and> np_mean (map val (std_plot_table np_sum np_mean
       [([[1, 0, 2, 0], [-1, 0, 3, 5]], ''a''), ([[4, 4, 4, 4]], ''b'')] 10 True))
     = 8363827879402351 / 2 ^ 51"
proof -
  let ?S = "[([[1, 0, 2, 0], [-1, 0, 3, 5]], ''a''), ([[4, 4, 4, 4 :: real]], ''b'')]"
  let ?df = "[\<lparr> val = 2, indices = 20, name = ''a'' \<rparr>,
        \<lparr> val = 3, indices = 20, name = ''a'' \<rparr>,
        \<lparr> val = 5, indices = 30, name = ''a'' \<rparr>,
        \<lparr> val = 4, indices = 0, name = ''b'' \<rparr>,
        \<lparr> val = 4, indices = 10, name = ''b'' \<rparr>,
        \<lparr> val = 4, indices = 20, name = ''b'' \<rparr>,
        \<lparr> val = 4 :: real, indices = 30 :: real, name = ''b'' \<rparr>]"
  define g :: real where "g = 8363827879402350 / 2 ^ 51"
  define a :: real where "a = 857828500451523 / 2 ^ 51"
  let ?df' = "[\<lparr> val = fadd 2 a, indices = 20, name = ''a'' \<rparr>,
        \<lparr> val = fadd 3 a, indices = 20, name = ''a'' \<rparr>,
        \<lparr> val = fadd 5 a, indices = 30, name = ''a'' \<rparr>,
        \<lparr> val = g, indices = 0, name = ''b'' \<rparr>,
        \<lparr> val = g, indices = 10, name = ''b'' \<rparr>,
        \<lparr> val = g, indices = 20, name = ''b'' \<rparr>,
        \<lparr> val = g, indices = 30 :: real, name = ''b'' \<rparr>]"
  have df: "std_plot_table np_sum np_mean ?S 10 False = ?df"
    by code_simp
  have G: "np_mean (map val ?df) = g"
    unfolding g_def by code_simp
  have ma: "fsub g (np_mean (series_of ''a'' ?df)) = a"
    unfolding g_def a_def by code_simp
  have mb: "fadd 4 (fsub g (np_mean (series_of ''b'' ?df))) = g"
    unfolding g_def by code_simp
  have df': "std_plot_table np_sum np_mean ?S 10 True = ?df'"
    unfolding align_mean_table_shift std_plot_table_def Let_def
    using df[unfolded std_plot_table_def Let_def, simplified] G ma mb
    by (simp add: shifted_def)
  have 1: "np_mean (series_of ''a'' ?df') = 8363827879402349 / 2 ^ 51"
    unfolding g_def a_def by code_simp
  have 2: "np_mean (map val ?df') = 8363827879402351 / 2 ^ 51"
    unfolding g_def a_def by code_simp
  show ?thesis
    unfolding df df' using G 1 2 unfolding g_def by blast
qed

section \<open>Results about horizon files\<close>

lemma py_split_nonempty: "py_split sep s \<noteq> []"
  by (induction s) (auto split: list.splits)

lemma load_lines_error:
  "l \<in> set ls \<Longrightarrow> parse_line l = Inl e \<Longrightarrow> \<exists>e'. load_lines ls acc = Inl e'"
proof (induction ls arbitrary: acc)
  case Nil
  then show ?case by simp
next
  case (Cons x ls)
  show ?case
  proof (cases "parse_line x")
    case (Inl e0)
    then show ?thesis by simp
  next
    case (Inr r)
    with Cons.prems have "l \<in> set ls" by auto
    then show ?thesis using Cons.IH Cons.prems(2) Inr by (cases r) auto
  qed
qed

lemma load_lines_keeps:
  "load_lines ls acc = Inr rows \<Longrightarrow> set acc \<subseteq> set rows"
proof (induction ls arbitrary: acc)
  case Nil
  then show ?case by simp
next
  case (Cons x ls)
  then show ?case
    by (fastforce split: sum.splits option.splits)
qed

lemma load_lines_member:
  "l \<in> set ls \<Longrightarrow> parse_line l = Inr (Some r) \<Longrightarrow> load_lines ls acc = Inr rows \<Longrightarrow> r \<in> set rows"
proof (induction ls arbitrary: acc)
  case Nil
  then show ?case by simp
next
  case (Cons x ls)
  show ?case
  proof (cases "l = x")
    case True
    with Cons.prems have "load_lines ls (acc @ [r]) = Inr rows" by simp
    then have "set (acc @ [r]) \<subseteq> set rows" by (rule load_lines_keeps)
    then show ?thesis by simp
  next
    case False
    with Cons.prems have mem: "l \<in> set ls" by simp
    from Cons.prems(3) obtain acc' where "load_lines ls acc' = Inr rows"
      by (auto split: sum.splits option.splits)
    with Cons.IH[OF mem Cons.prems(2)] show ?thesis by blast
  qed
qed

lemma parse_line_row:
  assumes "clean_line line \<noteq> []"
  shows "parse_line line = Inr (Some (a, b, t)) \<longleftrightarrow>
           2 \<le> length (tokens line) \<and> py_int (tokens line ! 0) = Inr a
           \<and> py_int (tokens line ! 1) = Inr b \<and> py_float (last (tokens line)) = Inr t"
  using assms
  by (auto simp: parse_line_def tokens_def Let_def split: sum.splits)

lemma parse_line_single:
  assumes "clean_line line \<noteq> []" "length (tokens line) < 2"
  shows "\<exists>e. parse_line line = Inl e"
  using assms
  by (auto simp: parse_line_def tokens_def Let_def split: sum.splits)

text \<open>
  C4 (as amended). The tokens of a line are the pieces between single spaces after
  every letter and colon has been replaced by a space, the line stripped and every run
  of spaces collapsed. For a line that is not blank after this cleaning, a row is
  appended exactly when the line has at least two tokens, the first two read as
  integers (inline, crossline) and the last reads as a float (time); the tokens in
  between play no part. A line with a single token raises. An exception on any line
  ends the whole load, and every row parsed from a line of a file that loads is in the
  result.
\<close>

theorem load_horizon_line:
  assumes "clean_line line \<noteq> []"
  shows "(parse_line line = Inr (Some (a, b, t)) \<longleftrightarrow>
            2 \<le> length (tokens line) \<and> py_int (tokens line ! 0) = Inr a
            \<and> py_int (tokens line ! 1) = Inr b \<and> py_float (last (tokens line)) = Inr t)
       \<and> (length (tokens line) < 2 \<longrightarrow> (\<exists>e. parse_line line = Inl e))
       \<and> (line \<in> set (py_split (CHR 0x0A) text) \<longrightarrow> (\<exists>e. parse_line line = Inl e)
            \<longrightarrow> (\<exists>e. load_horizon text = Inl e))
       \<and> (line \<in> set (py_split (CHR 0x0A) text) \<longrightarrow> parse_line line = Inr (Some (a, b, t))
            \<longrightarrow> (\<forall>rows. load_horizon text = Inr rows \<longrightarrow> (a, b, t) \<in> set rows))"
  using parse_line_row[OF assms] parse_line_single[OF assms]
        load_lines_error[of line "py_split (CHR 0x0A) text" _ "[]"]
        load_lines_member[of line "py_split (CHR 0x0A) text" "(a, b, t)" "[]"]
  unfolding load_horizon_def by blast

theorem load_horizon_line_witness:
  "clean_line ''INLINE: 12 XLINE: 7 x 99 3.5'' \<noteq> []
   \<and> tokens ''INLINE: 12 XLINE: 7 x 99 3.5'' = [''12'', ''7'', ''99'', ''3.5'']
   \<and> parse_line ''INLINE: 12 XLINE: 7 x 99 3.5'' = Inr (Some (12, 7, 7 / 2))"
proof -
  let ?L = "''INLINE: 12 XLINE: 7 x 99 3.5''"
  have h: "clean_line ?L \<noteq> []" by code_simp
  have toks: "tokens ?L = [''12'', ''7'', ''99'', ''3.5'']" by code_simp
  have "py_int ''12'' = Inr 12" "py_int ''7'' = Inr 7" "py_float ''3.5'' = Inr (7 / 2)"
    by code_simp+
  with h toks load_horizon_line[OF h, of 12 7 "7 / 2"] show ?thesis by simp
qed

text \<open>
  C4 (counterexample to the claim as stated). The cleaned line \<^verbatim>\<open>10 20\<close> has two
  tokens, fewer than three, and loads without error: its second token is read both as
  the crossline and as the time. A line of three columns separated by tabs is one token,
  since only runs of spaces are collapsed and only spaces separate tokens, and the load
  fails. In \<^verbatim>\<open>12a34 5 6\<close> the letter is replaced by a space, not removed: the line has
  four tokens and loads as inline 12 and crossline 34.
\<close>

theorem cleaned_line_tokens_differ:
  "tokens ''10 20'' = [''10'', ''20'']
   \<and> load_horizon ''10 20'' = Inr [(10, 20, 20)]
   \<and> tokens [CHR ''1'', CHR 0x09, CHR ''2'', CHR 0x09, CHR ''3'', CHR ''.'', CHR ''5'']
       = [[CHR ''1'', CHR 0x09, CHR ''2'', CHR 0x09, CHR ''3'', CHR ''.'', CHR ''5'']]
   \<and> load_horizon [CHR ''1'', CHR 0x09, CHR ''2'', CHR 0x09, CHR ''3'', CHR ''.'', CHR ''5'']
       = Inl ValueError
   \<and> tokens ''12a34 5 6'' = [''12'', ''34'', ''5'', ''6'']
   \<and> load_horizon ''12a34 5 6'' = Inr [(12, 34, 6)]"
  by code_simp

section \<open>Results about the selector dispatch\<close>

text \<open>
  An \<^verbatim>\<open>avg_method\<close> that is neither \<^verbatim>\<open>'mean'\<close> nor a callable raises.
\<close>

lemma avo_plot_avg_method_invalid:
  "avo_plot_avg_method nm (PyStr s) = (if s = ''mean'' then Inr nm else Inl ValueError)"
  "avo_plot_avg_method nm PyNone = Inl ValueError"
  "avo_plot_avg_method nm (PyList xs) = Inl ValueError"
  "avo_plot_avg_method nm PyOther = Inl ValueError"
  by simp_all

text \<open>
  C8 (evaluation at failing inputs). An entry of \<^verbatim>\<open>stats\<close> that is neither
  \<^verbatim>\<open>'std'\<close>, \<^verbatim>\<open>'corr'\<close> nor a callable raises nothing: \<^verbatim>\<open>stats='median'\<close> and
  \<^verbatim>\<open>stats=[42]\<close> both run to the end with no statistic recorded, and in
  \<^verbatim>\<open>stats=['std', 42]\<close> the invalid entry is skipped.
\<close>

theorem avo_plot_stats_invalid_entry_not_raised:
  "avo_plot_stats mean_std corr call (PyStr ''median'') = Inr ([], [])
   \<and> avo_plot_stats mean_std corr call (PyList [PyOther]) = Inr ([], [])
   \<and> avo_plot_stats mean_std corr call (PyList [PyStr ''std'', PyOther])
       = Inr ([mean_std], [''Mean std''])"
  by simp

section \<open>Results about offset binning\<close>

lemma length_row_window:
  "col_stop a \<le> length r \<Longrightarrow> length (row_window a r) = ncols a"
  by (auto simp: row_window_def ncols_def)

lemma contents_rows:
  assumes "wf_array h a"
  shows "length (contents h a) = nrows a"
    and "\<forall>r\<in>set (contents h a). length r = ncols a"
  using assms by (auto simp: wf_array_def contents_def list_all_iff length_row_window)

lemma set_bool_select: "set (bool_select xs msk) \<subseteq> set xs"
  unfolding bool_select_def by (auto dest: set_zip_leftD)

lemma bool_index_ok:
  assumes wf: "wf_array h a" and len: "length msk = nrows a"
  defines "rows \<equiv> bool_select (contents h a) msk"
  defines "sub \<equiv> \<lparr> base = next_addr h, nrows = length rows, col_start = 0, col_stop = ncols a \<rparr>"
  defines "h1 \<equiv> h \<lparr> bufs := (bufs h)(next_addr h := rows), next_addr := Suc (next_addr h) \<rparr>"
  shows "np_bool_index h a msk = Inr (sub, h1)"
    and "contents h1 sub = rows"
    and "\<forall>r\<in>set rows. length r = ncols a"
proof -
  show "np_bool_index h a msk = Inr (sub, h1)"
    using len by (simp add: np_bool_index_def Let_def rows_def sub_def h1_def)
  show rl: "\<forall>r\<in>set rows. length r = ncols a"
    using contents_rows(2)[OF wf] set_bool_select[of "contents h a" msk] unfolding rows_def by blast
  have "map (row_window sub) rows = rows"
  proof (rule map_idI)
    fix r assume "r \<in> set rows"
    then have "length r = ncols a" using rl by blast
    then show "row_window sub r = r"
      by (simp add: row_window_def sub_def ncols_def)
  qed
  then show "contents h1 sub = rows"
    by (simp add: contents_def h1_def sub_def)
qed

lemma row_window_slice:
  assumes "length r = n"
  shows "row_window (np_slice_cols \<lparr> base = b, nrows = m, col_start = 0, col_stop = n \<rparr> lo hi) r
         = py_slice lo hi r"
  using assms by (simp add: row_window_def np_slice_cols_def py_slice_def ncols_def Let_def)

lemma base_np_slice_cols [simp]: "base (np_slice_cols a lo hi) = base a"
  by (simp add: np_slice_cols_def Let_def)

lemma slice_index_le: "slice_index n i \<le> n"
  by (auto simp: slice_index_def max_def)

lemma slice_within:
  assumes "col_start a \<le> col_stop a"
  shows "col_start (np_slice_cols a lo hi) + ncols (np_slice_cols a lo hi) \<le> col_start a + ncols a"
proof -
  have "slice_index (ncols a) lo \<le> ncols a" "slice_index (ncols a) hi \<le> ncols a"
    by (rule slice_index_le)+
  then have "slice_index (ncols a) lo \<le> col_stop a - col_start a"
            "slice_index (ncols a) hi \<le> col_stop a - col_start a"
    by (simp_all add: ncols_def)
  moreover have "col_start (np_slice_cols a lo hi) + ncols (np_slice_cols a lo hi)
      = col_start a + max (slice_index (ncols a) lo) (slice_index (ncols a) hi)"
    by (simp add: np_slice_cols_def Let_def ncols_def[of "_\<lparr>col_start := _, col_stop := _\<rparr>"])
  ultimately show ?thesis
    using assms unfolding ncols_def[of a] by linarith
qed

lemma row_window_after_set:
  assumes "col_start a + ncols a \<le> length r"
  shows "row_window a (take (col_start a) r @ map f (row_window a r) @ drop (col_start a + ncols a) r)
         = map f (row_window a r)"
proof -
  have l1: "length (take (col_start a) r) = col_start a" using assms by simp
  have l2: "length (map f (row_window a r)) = ncols a"
    using assms by (simp add: row_window_def)
  show ?thesis
    unfolding row_window_def[of a "_ @ _"]
    using l1 l2 by simp
qed

lemma contents_after_set:
  assumes "\<forall>r\<in>set (bufs h (base a)). col_start a + ncols a \<le> length r"
  shows "contents (set_zero_to_nan h a) a = map (map zero_to_nan) (contents h a)"
proof -
  have "map (row_window a \<circ> (\<lambda>r. take (col_start a) r @ map zero_to_nan (row_window a r)
            @ drop (col_start a + ncols a) r)) (bufs h (base a))
      = map (map zero_to_nan \<circ> row_window a) (bufs h (base a))"
    by (rule map_cong) (use assms row_window_after_set in auto)
  then show ?thesis
    by (simp add: contents_def set_zero_to_nan_def)
qed


lemma frame_refl: "frame h h"
  by (simp add: frame_def)

lemma frame_trans: "frame h h1 \<Longrightarrow> frame h1 h2 \<Longrightarrow> frame h h2"
  by (auto simp: frame_def)

lemma frame_wf: "frame h h' \<Longrightarrow> wf_array h a \<Longrightarrow> wf_array h' a"
  by (auto simp: frame_def wf_array_def)

lemma frame_contents: "frame h h' \<Longrightarrow> wf_array h a \<Longrightarrow> contents h' a = contents h a"
  by (auto simp: frame_def wf_array_def contents_def)

lemma bin_step_ok:
  assumes wf: "wf_array h field" and len: "length offset = nrows field"
      and i: "i < length storage"
  shows "\<exists>h'. bin_step field offset step_list window calc_method i (storage, h)
              = Inr (storage[i := bin_value (contents h field) offset (step_list ! i)
                                   (step_list ! (i + 1)) window calc_method], h')
            \<and> frame h h'"
proof -
  let ?msk = "map (\<lambda>off. off \<ge> step_list ! i \<and> off < step_list ! (i + 1)) offset"
  let ?rows = "bool_select (contents h field) ?msk"
  let ?sub = "\<lparr> base = next_addr h, nrows = length ?rows, col_start = 0, col_stop = ncols field \<rparr>"
  let ?h1 = "h \<lparr> bufs := (bufs h)(next_addr h := ?rows), next_addr := Suc (next_addr h) \<rparr>"
  have lm: "length ?msk = nrows field" using len by simp
  have idx: "np_bool_index h field ?msk = Inr (?sub, ?h1)"
    and c1: "contents ?h1 ?sub = ?rows"
    and rl: "\<forall>r\<in>set ?rows. length r = ncols field"
    using bool_index_ok[OF wf lm] by blast+
  have f1: "frame h ?h1" by (simp add: frame_def)
  have sz: "np_size ?sub = 0 \<longleftrightarrow> ?rows = [] \<or> hd ?rows = []"
  proof (cases "?rows")
    case Nil
    then show ?thesis by (simp add: np_size_def)
  next
    case (Cons r rs)
    then have "length r = ncols field" using rl by simp
    then show ?thesis using Cons by (auto simp: np_size_def ncols_def)
  qed
  show ?thesis
  proof (cases "np_size ?sub = 0")
    case True
    then have "bin_value (contents h field) offset (step_list ! i) (step_list ! (i + 1)) window calc_method
        = Num 0"
      using sz unfolding bin_value_def Let_def by simp
    moreover have "bin_step field offset step_list window calc_method i (storage, h)
        = Inr (storage[i := Num 0], ?h1)"
      using True i idx by (simp add: bin_step_def)
    ultimately show ?thesis using f1 by auto
  next
    case False
    let ?sub' = "np_slice_cols ?sub (fst window) (snd window + 1)"
    let ?h2 = "set_zero_to_nan ?h1 ?sub'"
    have base': "base ?sub' = next_addr h" by simp
    have inr: "\<forall>r\<in>set (bufs ?h1 (base ?sub')). col_start ?sub' + ncols ?sub' \<le> length r"
    proof
      fix r assume "r \<in> set (bufs ?h1 (base ?sub'))"
      then have "r \<in> set ?rows" by simp
      then have lr: "length r = ncols field" using rl by blast
      have "col_start ?sub' + ncols ?sub' \<le> col_start ?sub + ncols ?sub"
        by (rule slice_within) simp
      then show "col_start ?sub' + ncols ?sub' \<le> length r"
        using lr by (simp add: ncols_def)
    qed
    have "contents ?h2 ?sub' = map (map zero_to_nan) (contents ?h1 ?sub')"
      using contents_after_set[OF inr] .
    also have "contents ?h1 ?sub' = map (row_window ?sub') ?rows"
      by (simp add: contents_def)
    also have "\<dots> = map (py_slice (fst window) (snd window + 1)) ?rows"
    proof (rule map_cong[OF refl])
      fix r assume "r \<in> set ?rows"
      then have "length r = ncols field" using rl by blast
      then show "row_window ?sub' r = py_slice (fst window) (snd window + 1) r"
        by (rule row_window_slice)
    qed
    finally have "contents ?h2 ?sub'
        = map (map zero_to_nan) (map (py_slice (fst window) (snd window + 1)) ?rows)" .
    then have c2: "contents ?h2 ?sub'
        = map (\<lambda>r. map zero_to_nan (py_slice (fst window) (snd window + 1) r)) ?rows"
      by (simp only: map_map comp_def)
    have f2: "frame h ?h2"
      by (simp add: frame_def set_zero_to_nan_def)
    have "bin_value (contents h field) offset (step_list ! i) (step_list ! (i + 1)) window calc_method
        = nan_to_num (calc_method (contents ?h2 ?sub'))"
      using False sz unfolding bin_value_def Let_def c2 by simp
    moreover have "bin_step field offset step_list window calc_method i (storage, h)
        = Inr (storage[i := nan_to_num (calc_method (contents ?h2 ?sub'))], ?h2)"
      using False i idx by (simp add: bin_step_def Let_def)
    ultimately show ?thesis using f2 by auto
  qed
qed


lemma bin_loop_ok:
  assumes wf: "wf_array h field" and len: "length offset = nrows field"
      and idx: "\<forall>i\<in>set is. i < length storage"
      and C: "contents h field = C"
  shows "\<exists>h'. bin_loop field offset step_list window calc_method is (storage, h)
              = Inr (fold (\<lambda>i s. s[i := bin_value C offset (step_list ! i) (step_list ! (i + 1))
                                          window calc_method]) is storage, h')
            \<and> frame h h'"
  using wf idx C
proof (induction "is" arbitrary: storage h)
  case Nil
  show ?case by (simp add: frame_refl)
next
  case (Cons i "is")
  let ?v = "bin_value C offset (step_list ! i) (step_list ! (i + 1)) window calc_method"
  have i: "i < length storage" using Cons.prems(2) by simp
  obtain h1 where step: "bin_step field offset step_list window calc_method i (storage, h)
        = Inr (storage[i := ?v], h1)" and f1: "frame h h1"
    using bin_step_ok[OF Cons.prems(1) len i] Cons.prems(3) by blast
  have wf1: "wf_array h1 field" using f1 Cons.prems(1) by (rule frame_wf)
  have C1: "contents h1 field = C"
    using frame_contents[OF f1 Cons.prems(1)] Cons.prems(3) by simp
  have idx1: "\<forall>k\<in>set is. k < length (storage[i := ?v])" using Cons.prems(2) by simp
  obtain h' where rest: "bin_loop field offset step_list window calc_method is (storage[i := ?v], h1)
        = Inr (fold (\<lambda>i s. s[i := bin_value C offset (step_list ! i) (step_list ! (i + 1))
                                    window calc_method]) is (storage[i := ?v]), h')"
      and f2: "frame h1 h'"
    using Cons.IH[OF wf1 idx1 C1] by blast
  show ?case
    using step rest frame_trans[OF f1 f2] by auto
qed

lemma fold_update_upt:
  "n \<le> length s \<Longrightarrow> fold (\<lambda>i s. s[i := f i]) [0..<n] s = map f [0..<n] @ drop n s"
proof (induction n)
  case 0
  show ?case by simp
next
  case (Suc n)
  then have n: "n < length s" by simp
  have "fold (\<lambda>i s. s[i := f i]) [0..<Suc n] s = (map f [0..<n] @ drop n s)[n := f n]"
    using Suc by simp
  also have "\<dots> = map f [0..<n] @ (drop n s)[0 := f n]"
    by (simp add: list_update_append)
  also have "(drop n s)[0 := f n] = f n # drop (Suc n) s"
    using n by (simp add: Cons_nth_drop_Suc[symmetric])
  finally show ?case by simp
qed

lemma bin_gather_ok:
  assumes wf: "wf_array h field" and len: "length offset_column = nrows field"
      and steps: "make_step_list bin_size (sort offset_column) = Inr step_list"
      and size: "length step_list - 1 \<le> storage_size"
  shows "\<exists>h'. bin_gather h field offset_column bin_size storage_size window calc_method
              = Inr (gather_bins (contents h field) (sort offset_column) step_list storage_size
                       window calc_method, h')
            \<and> frame h h'"
proof -
  let ?n = "length step_list - 1"
  let ?s0 = "replicate storage_size (Num 0)"
  have len': "length (sort offset_column) = nrows field" using len by simp
  have idx: "\<forall>i\<in>set [0..<?n]. i < length ?s0" using size by simp
  obtain h' where loop: "bin_loop field (sort offset_column) step_list window calc_method [0..<?n] (?s0, h)
        = Inr (fold (\<lambda>i s. s[i := bin_value (contents h field) (sort offset_column) (step_list ! i)
                 (step_list ! (i + 1)) window calc_method]) [0..<?n] ?s0, h')"
      and fr: "frame h h'"
    using bin_loop_ok[OF wf len' idx refl] by blast
  have "fold (\<lambda>i s. s[i := bin_value (contents h field) (sort offset_column) (step_list ! i)
                 (step_list ! (i + 1)) window calc_method]) [0..<?n] ?s0
      = gather_bins (contents h field) (sort offset_column) step_list storage_size window calc_method"
    using size by (simp add: fold_update_upt gather_bins_def)
  then show ?thesis
    using loop fr steps by (auto simp: bin_gather_def Let_def)
qed

lemma filter_sort_empty:
  "filter P (sort xs) = [] \<longleftrightarrow> filter P xs = []"
  by (simp add: filter_empty_conv)

lemma bool_select_none:
  "filter P offs = [] \<Longrightarrow> bool_select traces (map P offs) = []"
  unfolding bool_select_def
  by (auto simp: filter_empty_conv dest!: set_zip_rightD)

lemma bin_value_empty_bin:
  assumes "filter (\<lambda>off. s \<le> off \<and> off < e) offset_column = []"
  shows "bin_value traces (sort offset_column) s e window calc_method = Num 0"
proof -
  have "filter (\<lambda>off. s \<le> off \<and> off < e) (sort offset_column) = []"
    using assms by (simp add: filter_sort_empty)
  then have "bool_select traces (map (\<lambda>off. s \<le> off \<and> off < e) (sort offset_column)) = []"
    by (rule bool_select_none)
  then show ?thesis by (simp add: bin_value_def)
qed


lemma set_py_slice: "set (py_slice lo hi r) \<subseteq> set r"
  unfolding py_slice_def Let_def
  by (meson set_take_subset set_drop_subset subset_trans)

lemma bin_value_all_zero:
  assumes zero: "list_all (list_all (\<lambda>x. x = Num 0))
                   (bool_select traces (map (\<lambda>off. s \<le> off \<and> off < e) offset))"
      and nanagg: "\<And>m. list_all (list_all (\<lambda>x. x = NaN)) m \<Longrightarrow> snd (calc_method m) = NaN"
  shows "bin_value traces offset s e window calc_method = Num 0"
proof -
  let ?sel = "bool_select traces (map (\<lambda>off. s \<le> off \<and> off < e) offset)"
  let ?m = "map (\<lambda>r. map zero_to_nan (py_slice (fst window) (snd window + 1) r)) ?sel"
  have "list_all (list_all (\<lambda>x. x = NaN)) ?m"
    using zero set_py_slice[of "fst window" "snd window + 1"]
    by (fastforce simp: list_all_iff zero_to_nan_def)
  then have "snd (calc_method ?m) = NaN" by (rule nanagg)
  then have "nan_to_num (calc_method ?m) = Num 0"
    by (cases "calc_method ?m") simp
  then show ?thesis by (simp add: bin_value_def Let_def)
qed

lemma example_steps:
  "make_step_list (BinWidth 10) (sort [5, 12, 31]) = Inr [0, 10, 20, 30, 40]"
  "make_step_list (BinWidth 10) (sort [31, 5, 12]) = Inr [0, 10, 20, 30, 40]"
proof -
  have s: "sort [5, 12, 31 :: real] = [5, 12, 31]" "sort [31, 5, 12 :: real] = [5, 12, 31]"
    by simp_all
  have "make_step_list (BinWidth 10) [5, 12, 31] = Inr [0, 10, 20, 30, 40]"
    by code_simp
  then show "make_step_list (BinWidth 10) (sort [5, 12, 31]) = Inr [0, 10, 20, 30, 40]"
    "make_step_list (BinWidth 10) (sort [31, 5, 12]) = Inr [0, 10, 20, 30, 40]"
    unfolding s by simp_all
qed

text \<open>
  C3 (as amended). For a well-formed gather and enough room in \<^verbatim>\<open>storage\<close>, the
  binning returns, and for every bin \<open>[step_list[i], step_list[i+1])\<close> the stored value is
  \<open>bin_value\<close>: \<open>0\<close> when no row is selected (in particular when no offset of the
  gather falls in the bin), and otherwise the aggregator applied to the selected rows,
  cut to the window, with every exact zero replaced by not-a-number, passed through
  \<^verbatim>\<open>nan_to_num\<close>. A not-a-number aggregate becomes \<open>0\<close>, an infinite aggregate becomes
  the largest finite value of its sign, a finite one is kept. So a bin whose selected
  rows are all zero yields \<open>0\<close> for every aggregator that is not-a-number on all-missing
  input. The rows selected are those at the positions where the sorted offsets fall in
  the bin.
\<close>

theorem offset_bin_values:
  assumes "wf_array h field" and "length offset_column = nrows field"
      and "make_step_list bin_size (sort offset_column) = Inr step_list"
      and "length step_list - 1 \<le> storage_size"
  shows "\<exists>storage h'.
           bin_gather h field offset_column bin_size storage_size window calc_method = Inr (storage, h')
           \<and> (\<forall>i<length step_list - 1.
                 storage ! i = bin_value (contents h field) (sort offset_column)
                                 (step_list ! i) (step_list ! (i + 1)) window calc_method
                 \<and> (filter (\<lambda>off. step_list ! i \<le> off \<and> off < step_list ! (i + 1)) offset_column = []
                      \<longrightarrow> storage ! i = Num 0)
                 \<and> (list_all (list_all (\<lambda>x. x = Num 0))
                       (bool_select (contents h field)
                          (map (\<lambda>off. step_list ! i \<le> off \<and> off < step_list ! (i + 1))
                               (sort offset_column)))
                      \<and> (\<forall>m. list_all (list_all (\<lambda>x. x = NaN)) m \<longrightarrow> snd (calc_method m) = NaN)
                      \<longrightarrow> storage ! i = Num 0))
           \<and> nan_to_num (dt, NaN) = Num 0
           \<and> nan_to_num (dt, PosInf) = Num (finfo_max dt)
           \<and> nan_to_num (dt, NegInf) = Num (- finfo_max dt)
           \<and> nan_to_num (dt, Num x) = Num x"
proof -
  let ?bv = "\<lambda>i. bin_value (contents h field) (sort offset_column)
                    (step_list ! i) (step_list ! (i + 1)) window calc_method"
  obtain h' where run: "bin_gather h field offset_column bin_size storage_size window calc_method
        = Inr (gather_bins (contents h field) (sort offset_column) step_list storage_size
                 window calc_method, h')"
    using bin_gather_ok[OF assms] by blast
  have nth: "\<And>i. i < length step_list - 1 \<Longrightarrow>
      gather_bins (contents h field) (sort offset_column) step_list storage_size
        window calc_method ! i = ?bv i"
    by (simp add: gather_bins_def nth_append)
  have e: "\<And>i. filter (\<lambda>off. step_list ! i \<le> off \<and> off < step_list ! (i + 1)) offset_column = []
      \<Longrightarrow> ?bv i = Num 0"
    by (rule bin_value_empty_bin)
  have z: "\<And>i. list_all (list_all (\<lambda>x. x = Num 0))
                       (bool_select (contents h field)
                          (map (\<lambda>off. step_list ! i \<le> off \<and> off < step_list ! (i + 1))
                               (sort offset_column)))
      \<Longrightarrow> (\<forall>m. list_all (list_all (\<lambda>x. x = NaN)) m \<longrightarrow> snd (calc_method m) = NaN)
      \<Longrightarrow> ?bv i = Num 0"
    by (rule bin_value_all_zero) auto
  show ?thesis
    using run nth e z by (intro exI[of _ "gather_bins _ _ _ _ _ _"] exI[of _ h']) auto
qed

theorem offset_bin_values_witness:
  "\<exists>storage h'.
      bin_gather \<lparr> bufs = (\<lambda>_. [])(0 := [[Num 1, Num 0, Num 3], [Num 0, Num 0, Num 0],
                                           [PosInf, Num 2, Num 5]]), next_addr = 1 \<rparr>
                 \<lparr> base = 0, nrows = 3, col_start = 0, col_stop = 3 \<rparr>
                 [5, 12, 31] (BinWidth 10) 5 (0, 1) (\<lambda>m. (Float32, hd (hd m)))
        = Inr (storage, h')
      \<and> storage ! 0 = Num 1 \<and> storage ! 1 = Num 0 \<and> storage ! 2 = Num 0"
proof -
  let ?H = "\<lparr> bufs = (\<lambda>_. [])(0 := [[Num 1, Num 0, Num 3], [Num 0, Num 0, Num 0],
                                       [PosInf, Num 2, Num 5]]), next_addr = 1 \<rparr>"
  let ?F = "\<lparr> base = 0, nrows = 3, col_start = 0, col_stop = 3 \<rparr>"
  let ?calc = "\<lambda>m :: fval list list. (Float32, hd (hd m))"
  let ?steps = "[0, 10, 20, 30, 40 :: real]"
  have wf: "wf_array ?H ?F" by (simp add: wf_array_def)
  have len: "length [5, 12, 31 :: real] = nrows ?F" by simp
  have steps: "make_step_list (BinWidth 10) (sort [5, 12, 31]) = Inr ?steps"
    by (rule example_steps)
  have size: "length ?steps - 1 \<le> 5" by simp
  have c: "contents ?H ?F = [[Num 1, Num 0, Num 3], [Num 0, Num 0, Num 0], [PosInf, Num 2, Num 5]]"
    by (simp add: contents_def row_window_def ncols_def)
  have s: "sort [5, 12, 31 :: real] = [5, 12, 31]" by simp
  have v0: "bin_value (contents ?H ?F) (sort [5, 12, 31]) (?steps ! 0) (?steps ! (0 + 1)) (0, 1) ?calc = Num 1"
    unfolding c s by code_simp
  have v1: "bin_value (contents ?H ?F) (sort [5, 12, 31]) (?steps ! 1) (?steps ! (1 + 1)) (0, 1) ?calc = Num 0"
    unfolding c s by code_simp
  have v2: "bin_value (contents ?H ?F) (sort [5, 12, 31]) (?steps ! 2) (?steps ! (2 + 1)) (0, 1) ?calc = Num 0"
    unfolding c s by code_simp
  from offset_bin_values[OF wf len steps size, of "(0, 1)" ?calc]
  obtain storage h' where
    run: "bin_gather ?H ?F [5, 12, 31] (BinWidth 10) 5 (0, 1) ?calc = Inr (storage, h')"
    and vals: "\<forall>i<length ?steps - 1. storage ! i = bin_value (contents ?H ?F) (sort [5, 12, 31])
                 (?steps ! i) (?steps ! (i + 1)) (0, 1) ?calc"
    by blast
  have "storage ! 0 = Num 1" "storage ! 1 = Num 0" "storage ! 2 = Num 0"
    using vals v0 v1 v2 by simp_all
  with run show ?thesis by blast
qed

text \<open>
  C3 (counterexample to the claim as stated). Gathers of three traces with three
  samples each, bins of width 10, window samples 0 to 1.

  With the offsets 5, 12 and 31 and the aggregator that returns the first amplitude of
  the sub-array, the bin \<open>[30, 40)\<close> holds the trace whose first amplitude is plus
  infinity: the aggregate is not finite, and the stored value is the largest finite
  single-precision number, not \<open>0\<close>.

  With the traces stored in the order of the offsets 31, 5 and 12, the trace at offset 5
  being all zero, the bin \<open>[0, 10)\<close> reports the first amplitude \<open>7\<close> of the trace at
  offset 31: the offsets are sorted and the traces are not, so the rows are selected by
  the positions of the sorted offsets. Selecting by the offset of each trace would give
  \<open>0\<close>.

  With the aggregator that counts the traces of the sub-array, the bin \<open>[10, 20)\<close>,
  whose only trace is all zero, yields \<open>1\<close>, not \<open>0\<close>. With the same aggregator and
  traces without samples, every bin yields \<open>0\<close> although three bins hold a trace: the
  aggregator is not applied to a sub-array without elements.
\<close>

theorem offset_bin_value_differs:
  "map_sum id fst
     (bin_gather \<lparr> bufs = (\<lambda>_. [])(0 := [[Num 1, Num 0, Num 3], [Num 0, Num 0, Num 0],
                                           [PosInf, Num 2, Num 5]]), next_addr = 1 \<rparr>
                 \<lparr> base = 0, nrows = 3, col_start = 0, col_stop = 3 \<rparr>
                 [5, 12, 31] (BinWidth 10) 5 (0, 1) (\<lambda>m. (Float32, hd (hd m))))
     = Inr [Num 1, Num 0, Num 0, Num ((2 ^ 24 - 1) * 2 ^ 104), Num 0]
   \<and> map_sum id fst
     (bin_gather \<lparr> bufs = (\<lambda>_. [])(0 := [[Num 7, Num 7, Num 7], [Num 0, Num 0, Num 0],
                                           [Num 2, Num 2, Num 2]]), next_addr = 1 \<rparr>
                 \<lparr> base = 0, nrows = 3, col_start = 0, col_stop = 3 \<rparr>
                 [31, 5, 12] (BinWidth 10) 5 (0, 1) (\<lambda>m. (Float32, hd (hd m))))
     = Inr [Num 7, Num 0, Num 0, Num 2, Num 0]
   \<and> bin_value [[Num 7, Num 7, Num 7], [Num 0, Num 0, Num 0], [Num 2, Num 2, Num 2]]
                [31, 5, 12] 0 10 (0, 1) (\<lambda>m. (Float32, hd (hd m))) = Num 0
   \<and> map_sum id fst
     (bin_gather \<lparr> bufs = (\<lambda>_. [])(0 := [[Num 1, Num 0, Num 3], [Num 0, Num 0, Num 0],
                                           [PosInf, Num 2, Num 5]]), next_addr = 1 \<rparr>
                 \<lparr> base = 0, nrows = 3, col_start = 0, col_stop = 3 \<rparr>
                 [5, 12, 31] (BinWidth 10) 5 (0, 1) (\<lambda>m. (Float64, Num (real (length m)))))
     = Inr [Num 1, Num 1, Num 0, Num 1, Num 0]
   \<and> map_sum id fst
     (bin_gather \<lparr> bufs = (\<lambda>_. [])(0 := [[], [], []]), next_addr = 1 \<rparr>
                 \<lparr> base = 0, nrows = 3, col_start = 0, col_stop = 0 \<rparr>
                 [5, 12, 31] (BinWidth 10) 5 (0, 1) (\<lambda>m. (Float64, Num (real (length m)))))
     = Inr [Num 0, Num 0, Num 0, Num 0, Num 0]"
proof -
  let ?F = "\<lparr> base = 0, nrows = 3, col_start = 0, col_stop = 3 \<rparr>"
  let ?Z = "\<lparr> base = 0, nrows = 3, col_start = 0, col_stop = 0 \<rparr>"
  let ?A = "[[Num 1, Num 0, Num 3], [Num 0, Num 0, Num 0], [PosInf, Num 2, Num 5]]"
  let ?B = "[[Num 7, Num 7, Num 7], [Num 0, Num 0, Num 0], [Num 2, Num 2, Num 2]]"
  let ?E = "[[], [], []] :: fval list list"
  let ?HA = "\<lparr> bufs = (\<lambda>_. [])(0 := ?A), next_addr = 1 \<rparr>"
  let ?HB = "\<lparr> bufs = (\<lambda>_. [])(0 := ?B), next_addr = 1 \<rparr>"
  let ?HE = "\<lparr> bufs = (\<lambda>_. [])(0 := ?E), next_addr = 1 \<rparr>"
  let ?first = "\<lambda>m :: fval list list. (Float32, hd (hd m))"
  let ?count = "\<lambda>m :: fval list list. (Float64, Num (real (length m)))"
  let ?steps = "[0, 10, 20, 30, 40 :: real]"
  have s: "sort [5, 12, 31 :: real] = [5, 12, 31]" "sort [31, 5, 12 :: real] = [5, 12, 31]"
    by simp_all
  have size: "length ?steps - 1 \<le> 5" by simp
  have wf: "wf_array ?HA ?F" "wf_array ?HB ?F" "wf_array ?HE ?Z"
    by (simp_all add: wf_array_def)
  have cA: "contents ?HA ?F = ?A"
    by (simp add: contents_def row_window_def ncols_def)
  have cB: "contents ?HB ?F = ?B"
    by (simp add: contents_def row_window_def ncols_def)
  have cE: "contents ?HE ?Z = ?E"
    by (simp add: contents_def row_window_def ncols_def)
  note c = cA cB cE
  have len: "length [5, 12, 31 :: real] = nrows ?F" "length [31, 5, 12 :: real] = nrows ?F"
            "length [5, 12, 31 :: real] = nrows ?Z"
    by simp_all
  have g1: "gather_bins ?A [5, 12, 31] ?steps 5 (0, 1) ?first
            = [Num 1, Num 0, Num 0, Num ((2 ^ 24 - 1) * 2 ^ 104), Num 0]"
    by code_simp
  have g2: "gather_bins ?B [5, 12, 31] ?steps 5 (0, 1) ?first = [Num 7, Num 0, Num 0, Num 2, Num 0]"
    by code_simp
  have g3: "gather_bins ?A [5, 12, 31] ?steps 5 (0, 1) ?count = [Num 1, Num 1, Num 0, Num 1, Num 0]"
    by code_simp
  have g4: "gather_bins ?E [5, 12, 31] ?steps 5 (0, 1) ?count = [Num 0, Num 0, Num 0, Num 0, Num 0]"
    by code_simp
  have r1: "map_sum id fst (bin_gather ?HA ?F [5, 12, 31] (BinWidth 10) 5 (0, 1) ?first)
            = Inr [Num 1, Num 0, Num 0, Num ((2 ^ 24 - 1) * 2 ^ 104), Num 0]"
    using bin_gather_ok[OF wf(1) len(1) example_steps(1) size, of "(0, 1)" ?first]
    unfolding c s g1 by auto
  have r2: "map_sum id fst (bin_gather ?HB ?F [31, 5, 12] (BinWidth 10) 5 (0, 1) ?first)
            = Inr [Num 7, Num 0, Num 0, Num 2, Num 0]"
    using bin_gather_ok[OF wf(2) len(2) example_steps(2) size, of "(0, 1)" ?first]
    unfolding c s g2 by auto
  have r3: "map_sum id fst (bin_gather ?HA ?F [5, 12, 31] (BinWidth 10) 5 (0, 1) ?count)
            = Inr [Num 1, Num 1, Num 0, Num 1, Num 0]"
    using bin_gather_ok[OF wf(1) len(1) example_steps(1) size, of "(0, 1)" ?count]
    unfolding c s g3 by auto
  have r4: "map_sum id fst (bin_gather ?HE ?Z [5, 12, 31] (BinWidth 10) 5 (0, 1) ?count)
            = Inr [Num 0, Num 0, Num 0, Num 0, Num 0]"
    using bin_gather_ok[OF wf(3) len(3) example_steps(1) size, of "(0, 1)" ?count]
    unfolding c s g4 by auto
  have own: "bin_value ?B [31, 5, 12] 0 10 (0, 1) ?first = Num 0"
    by code_simp
  show ?thesis using r1 r2 own r3 r4 by blast
qed

text \<open>
  C9. Binning a gather leaves its amplitude matrix as it was: the buffer of \<open>field\<close>,
  and every other buffer that existed before, is unchanged afterwards (the zeros are
  replaced in the fresh copies that boolean indexing makes), so binning the same gather
  again with the same parameters returns the same vector.
\<close>

theorem gather_matrix_unchanged:
  assumes "wf_array h field" and "length offset_column = nrows field"
      and "make_step_list bin_size (sort offset_column) = Inr step_list"
      and "length step_list - 1 \<le> storage_size"
  shows "\<exists>storage h'.
           bin_gather h field offset_column bin_size storage_size window calc_method = Inr (storage, h')
           \<and> bufs h' (base field) = bufs h (base field)
           \<and> contents h' field = contents h field
           \<and> (\<forall>a<next_addr h. bufs h' a = bufs h a)
           \<and> (\<exists>h''. bin_gather h' field offset_column bin_size storage_size window calc_method
                       = Inr (storage, h''))"
proof -
  obtain h' where run: "bin_gather h field offset_column bin_size storage_size window calc_method
        = Inr (gather_bins (contents h field) (sort offset_column) step_list storage_size
                 window calc_method, h')"
      and fr: "frame h h'"
    using bin_gather_ok[OF assms] by blast
  have wf': "wf_array h' field" using fr assms(1) by (rule frame_wf)
  have c: "contents h' field = contents h field" using fr assms(1) by (rule frame_contents)
  obtain h'' where again: "bin_gather h' field offset_column bin_size storage_size window calc_method
        = Inr (gather_bins (contents h' field) (sort offset_column) step_list storage_size
                 window calc_method, h'')"
    using bin_gather_ok[OF wf' assms(2,3,4)] by blast
  have alloc: "base field < next_addr h" using assms(1) by (simp add: wf_array_def)
  show ?thesis
    using run again c fr alloc unfolding frame_def by auto
qed


theorem gather_matrix_unchanged_witness:
  "\<exists>storage h'.
      bin_gather \<lparr> bufs = (\<lambda>_. [])(0 := [[Num 1, Num 0, Num 3], [Num 0, Num 0, Num 0],
                                           [PosInf, Num 2, Num 5]]), next_addr = 1 \<rparr>
                 \<lparr> base = 0, nrows = 3, col_start = 0, col_stop = 3 \<rparr>
                 [5, 12, 31] (BinWidth 10) 5 (0, 1) (\<lambda>m. (Float32, hd (hd m)))
        = Inr (storage, h')
      \<and> bufs h' 0 = [[Num 1, Num 0, Num 3], [Num 0, Num 0, Num 0], [PosInf, Num 2, Num 5]]"
proof -
  let ?H = "\<lparr> bufs = (\<lambda>_. [])(0 := [[Num 1, Num 0, Num 3], [Num 0, Num 0, Num 0],
                                       [PosInf, Num 2, Num 5]]), next_addr = 1 \<rparr>"
  let ?F = "\<lparr> base = 0, nrows = 3, col_start = 0, col_stop = 3 \<rparr>"
  let ?calc = "\<lambda>m :: fval list list. (Float32, hd (hd m))"
  let ?steps = "[0, 10, 20, 30, 40 :: real]"
  have wf: "wf_array ?H ?F" by (simp add: wf_array_def)
  have len: "length [5, 12, 31 :: real] = nrows ?F" by simp
  have steps: "make_step_list (BinWidth 10) (sort [5, 12, 31]) = Inr ?steps"
    by (rule example_steps)
  have size: "length ?steps - 1 \<le> 5" by simp
  from gather_matrix_unchanged[OF wf len steps size, of "(0, 1)" ?calc]
  obtain storage h' where
    run: "bin_gather ?H ?F [5, 12, 31] (BinWidth 10) 5 (0, 1) ?calc = Inr (storage, h')"
    and same: "bufs h' (base ?F) = bufs ?H (base ?F)"
    by blast
  from same have "bufs h' 0 = [[Num 1, Num 0, Num 3], [Num 0, Num 0, Num 0], [PosInf, Num 2, Num 5]]"
    by simp
  with run show ?thesis by blast
qed

end
